theory Spec2Isabelle
  imports Main "HOL-Library.AList"
begin

section \<open>Text primitives used by the capability parsers\<close>

text \<open>
  A Python \<open>str\<close> is modelled as a \<open>string\<close>: one \<open>char\<close> stands for one code point
  below 256. The tables below are the ones of CPython for that range.

  \<open>isspace\<close> is the predicate behind \<open>str.strip()\<close> and the regular expression class
  \<open>\s\<close> on \<open>str\<close> patterns: TAB, LF, VT, FF, CR, the separators 0x1C to 0x1F, SPACE,
  NEL (0x85) and NBSP (0xA0).
\<close>

definition isspace :: "char \<Rightarrow> bool" where
  "isspace c \<longleftrightarrow>
     c \<in> {CHR 0x09, CHR 0x0A, CHR 0x0B, CHR 0x0C, CHR 0x0D,
          CHR 0x1C, CHR 0x1D, CHR 0x1E, CHR 0x1F, CHR 0x20, CHR 0x85, CHR 0xA0}"

text \<open>The line boundaries of \<open>str.splitlines()\<close> below 256 (CR LF counts once).\<close>

definition is_linebreak :: "char \<Rightarrow> bool" where
  "is_linebreak c \<longleftrightarrow>
     c \<in> {CHR 0x0A, CHR 0x0B, CHR 0x0C, CHR 0x0D, CHR 0x1C, CHR 0x1D, CHR 0x1E, CHR 0x85}"

definition isdigit :: "char \<Rightarrow> bool" where
  "isdigit c \<longleftrightarrow> (48::nat) \<le> of_char c \<and> of_char c \<le> (57::nat)"

definition digit_val :: "char \<Rightarrow> int" where
  "digit_val c = int (of_char c) - 48"

text \<open>\<open>str.lower()\<close> on one code point below 256: A-Z and the Latin-1 capitals.\<close>

definition lower_char :: "char \<Rightarrow> char" where
  "lower_char c =
     (let n = (of_char c :: nat)
      in if (65 \<le> n \<and> n \<le> 90) \<or> (192 \<le> n \<and> n \<le> 222 \<and> n \<noteq> 215)
         then char_of (n + 32) else c)"

definition lower :: "string \<Rightarrow> string" where
  "lower s = map lower_char s"

definition strip :: "string \<Rightarrow> string" where
  "strip s = rev (dropWhile isspace (rev (dropWhile isspace s)))"

definition endswith :: "string \<Rightarrow> string \<Rightarrow> bool" where
  "endswith s suf \<longleftrightarrow> length suf \<le> length s \<and> drop (length s - length suf) s = suf"

definition startswith :: "string \<Rightarrow> string \<Rightarrow> bool" where
  "startswith s pre \<longleftrightarrow> take (length pre) s = pre"

text \<open>\<open>needle in s\<close> and \<open>re.search\<close>: some suffix of the text matches at its start.\<close>

fun search_from :: "(string \<Rightarrow> bool) \<Rightarrow> string \<Rightarrow> bool" where
  "search_from m [] = m []"
| "search_from m (c # cs) = (m (c # cs) \<or> search_from m cs)"

definition contains :: "string \<Rightarrow> string \<Rightarrow> bool" where
  "contains needle s = search_from (\<lambda>t. startswith t needle) s"

text \<open>
  \<open>str.splitlines()\<close>: the text is cut at every line boundary, the boundary is dropped,
  and a text that ends in a boundary has no empty last line.
\<close>

fun splitlines_from :: "string \<Rightarrow> string \<Rightarrow> string list" where
  "splitlines_from cur [] = (if cur = [] then [] else [cur])"
| "splitlines_from cur (c # cs) =
     (if c = CHR 0x0D \<and> cs \<noteq> [] \<and> hd cs = CHR 0x0A then cur # splitlines_from [] (tl cs)
      else if is_linebreak c then cur # splitlines_from [] cs
      else splitlines_from (cur @ [c]) cs)"

definition splitlines :: "string \<Rightarrow> string list" where
  "splitlines text = splitlines_from [] text"

text \<open>
  \<open>re.split(r'\s{2,}', s)\<close>: the leftmost run of two or more blanks is a separator
  (the quantifier is greedy, so the whole run), a single blank stays in the field.
\<close>

function re_split_ws2_from :: "string \<Rightarrow> string \<Rightarrow> string list" where
  "re_split_ws2_from cur [] = [cur]"
| "re_split_ws2_from cur (c # cs) =
     (if isspace c \<and> cs \<noteq> [] \<and> isspace (hd cs)
      then cur # re_split_ws2_from [] (dropWhile isspace cs)
      else re_split_ws2_from (cur @ [c]) cs)"
  by pat_completeness auto
termination
  by (relation "measure (\<lambda>(cur, s). length s)")
     (auto simp: less_Suc_eq_le length_dropWhile_le)

definition re_split_ws2 :: "string \<Rightarrow> string list" where
  "re_split_ws2 s = re_split_ws2_from [] s"

text \<open>
  \<open>int(s)\<close> in base 10: blanks around the number are dropped, one sign is allowed, then
  decimal digits, where a single underscore may stand between two digits. Anything else
  raises ValueError, here \<open>None\<close>; so does a number of more than 4300 digits, underscores
  not counted, which is the cap the interpreter applies unless it is configured
  otherwise. The blanks \<open>int\<close> drops are fewer than those of \<open>strip\<close>: TAB, LF, VT,
  FF, CR and SPACE, and above the ASCII range NEL and NBSP, but not 0x1C to 0x1F.
\<close>

definition int_space :: "char \<Rightarrow> bool" where
  "int_space c \<longleftrightarrow>
     c \<in> {CHR 0x09, CHR 0x0A, CHR 0x0B, CHR 0x0C, CHR 0x0D, CHR 0x20, CHR 0x85, CHR 0xA0}"

definition max_str_digits :: nat where
  "max_str_digits = 4300"

fun digits_ok :: "bool \<Rightarrow> string \<Rightarrow> bool" where
  "digits_ok prev [] = prev"
| "digits_ok prev (c # cs) =
     (if isdigit c then digits_ok True cs
      else if c = CHR ''_'' \<and> prev then digits_ok False cs
      else False)"

definition digits_value :: "string \<Rightarrow> int" where
  "digits_value s = foldl (\<lambda>acc c. if c = CHR ''_'' then acc else 10 * acc + digit_val c) 0 s"

definition py_int :: "string \<Rightarrow> int option" where
  "py_int s =
     (case rev (dropWhile int_space (rev (dropWhile int_space s))) of
        [] \<Rightarrow> None
      | c # cs \<Rightarrow>
          (let neg = (c = CHR ''-'');
               body = (if c = CHR ''-'' \<or> c = CHR ''+'' then cs else c # cs)
           in if digits_ok False body \<and> length (filter isdigit body) \<le> max_str_digits
              then Some (if neg then - digits_value body else digits_value body)
              else None))"

section \<open>Capability catalog: parsing the listings\<close>

text \<open>The dictionary built for one data line, with its four keys.\<close>

record hardware_record =
  rec_id :: int
  mfg :: string
  model :: string
  label :: string

text \<open>
  The header markers. \<open>re.search(r'Rig\s*#', line)\<close>: the letters, any blanks, the hash.
  \<open>re.search(r'Rotator|Amplifier|Device|Model', line, re.I)\<close>: one of four words, in
  any case.
\<close>

definition rig_marker_at :: "string \<Rightarrow> bool" where
  "rig_marker_at t \<longleftrightarrow>
     startswith t ''Rig'' \<and> startswith (dropWhile isspace (drop 3 t)) ''#''"

definition rig_header :: "string \<Rightarrow> bool" where
  "rig_header line = search_from rig_marker_at line"

definition device_marker_at :: "string \<Rightarrow> bool" where
  "device_marker_at t \<longleftrightarrow>
     (\<exists>w \<in> set [''rotator'', ''amplifier'', ''device'', ''model'']. startswith (lower t) w)"

definition device_header :: "string \<Rightarrow> bool" where
  "device_header line = search_from device_marker_at line"

text \<open>
  The first loop of both parsers: \<open>start\<close> is one past the first line that matches the
  header, and stays 0 when no line does.
\<close>

fun header_start :: "(string \<Rightarrow> bool) \<Rightarrow> nat \<Rightarrow> string list \<Rightarrow> nat" where
  "header_start m i [] = 0"
| "header_start m i (line # rest) = (if m line then i + 1 else header_start m (i + 1) rest)"

text \<open>
  The body of the second loop: one line either appends a record or is passed over
  (\<open>continue\<close>) when it is blank, has fewer than three fields, or has a first field that
  \<open>int\<close> rejects.
\<close>

definition parse_line :: "hardware_record list \<Rightarrow> string \<Rightarrow> hardware_record list" where
  "parse_line rigs line =
     (if strip line = [] then rigs
      else let parts = re_split_ws2 (strip line)
           in if length parts < 3 then rigs
              else case py_int (parts ! 0) of
                     None \<Rightarrow> rigs
                   | Some rid \<Rightarrow>
                       (let m = strip (parts ! 1); mo = strip (parts ! 2)
                        in rigs @ [\<lparr>rec_id = rid, mfg = m, model = mo,
                                    label = m @ '' - '' @ mo\<rparr>]))"

definition parse_rig_list :: "string \<Rightarrow> hardware_record list" where
  "parse_rig_list text =
     (let lines = splitlines text;
          start = header_start rig_header 0 lines
      in foldl parse_line [] (drop start lines))"

definition parse_device_list :: "string \<Rightarrow> hardware_record list" where
  "parse_device_list text =
     (let lines = splitlines text;
          start = header_start device_header 0 lines
      in foldl parse_line [] (drop start lines))"

section \<open>Installation tree and filesystem resolver\<close>

text \<open>
  The installation root \<open>HAMLIB_DIR\<close> is \<open>None\<close> while the folder does not exist and the
  listing of its entries otherwise. A folder carries its modification time and its
  entries in the order the operating system lists them, which is the order \<open>iterdir\<close>
  and \<open>os.walk\<close> follow. A path is the list of its components below the root, and a
  name is one component, compared exactly.
\<close>

datatype node = File string | Dir int "(string \<times> node) list"

type_synonym entries = "(string \<times> node) list"

type_synonym path = "string list"

fun exists_in :: "entries \<Rightarrow> path \<Rightarrow> bool" where
  "exists_in es [] = True"
| "exists_in es (n # ns) =
     (case map_of es n of
        None \<Rightarrow> False
      | Some (File _) \<Rightarrow> ns = []
      | Some (Dir _ sub) \<Rightarrow> exists_in sub ns)"

text \<open>\<open>(sub/"bin"/"rigctld.exe").exists()\<close> for one entry \<open>sub\<close> of the root.\<close>

fun holds_rigctld :: "string \<times> node \<Rightarrow> bool" where
  "holds_rigctld (n, File _) = False"
| "holds_rigctld (n, Dir _ sub) = exists_in sub [''bin'', ''rigctld.exe'']"

fun st_mtime :: "string \<times> node \<Rightarrow> int" where
  "st_mtime (n, Dir t _) = t"
| "st_mtime (n, File _) = 0"

text \<open>\<open>max(candidates, key=...)\<close>: the first of the candidates with the largest key.\<close>

fun max_by :: "('a \<Rightarrow> int) \<Rightarrow> 'a \<Rightarrow> 'a list \<Rightarrow> 'a" where
  "max_by key best [] = best"
| "max_by key best (x # xs) = max_by key (if key best < key x then x else best) xs"

definition get_latest_bin_dir :: "entries option \<Rightarrow> path option" where
  "get_latest_bin_dir hamlib =
     (case hamlib of
        None \<Rightarrow> None
      | Some es \<Rightarrow>
          (case filter holds_rigctld es of
             c # cs \<Rightarrow> Some [fst (max_by st_mtime c cs), ''bin'']
           | [] \<Rightarrow> if exists_in es [''bin'', ''rigctld.exe''] then Some [''bin''] else None))"

text \<open>
  \<open>os.walk\<close>, top down: a folder's own files are looked at before its sub-folders are
  entered, one after the other, each to its full depth.
\<close>

fun is_file :: "node \<Rightarrow> bool" where
  "is_file (File _) = True"
| "is_file (Dir _ _) = False"

definition files_of :: "entries \<Rightarrow> string list" where
  "files_of es = map fst (filter (\<lambda>e. is_file (snd e)) es)"

fun walk_top :: "string \<Rightarrow> path \<Rightarrow> entries \<Rightarrow> path option"
  and walk_dirs :: "string \<Rightarrow> path \<Rightarrow> entries \<Rightarrow> path option" where
  "walk_top nm root es =
     (if nm \<in> set (files_of es) then Some (root @ [nm]) else walk_dirs nm root es)"
| "walk_dirs nm root [] = None"
| "walk_dirs nm root ((d, File _) # rest) = walk_dirs nm root rest"
| "walk_dirs nm root ((d, Dir _ sub) # rest) =
     (case walk_top nm (root @ [d]) sub of
        Some p \<Rightarrow> Some p
      | None \<Rightarrow> walk_dirs nm root rest)"

text \<open>The files \<open>os.walk\<close> comes by, as paths, in the order it comes by them.\<close>

fun walk_files :: "path \<Rightarrow> entries \<Rightarrow> path list"
  and walk_sub :: "path \<Rightarrow> entries \<Rightarrow> path list" where
  "walk_files root es = map (\<lambda>f. root @ [f]) (files_of es) @ walk_sub root es"
| "walk_sub root [] = []"
| "walk_sub root ((d, File _) # rest) = walk_sub root rest"
| "walk_sub root ((d, Dir _ sub) # rest) = walk_files (root @ [d]) sub @ walk_sub root rest"

definition path_exists :: "entries option \<Rightarrow> path \<Rightarrow> bool" where
  "path_exists hamlib p = (case hamlib of None \<Rightarrow> False | Some es \<Rightarrow> exists_in es p)"

definition os_walk_find :: "entries option \<Rightarrow> string \<Rightarrow> path option" where
  "os_walk_find hamlib nm = (case hamlib of None \<Rightarrow> None | Some es \<Rightarrow> walk_top nm [] es)"

definition find_exe :: "entries option \<Rightarrow> string \<Rightarrow> path option" where
  "find_exe hamlib nm =
     (case get_latest_bin_dir hamlib of
        Some bin_dir \<Rightarrow>
          if path_exists hamlib (bin_dir @ [nm]) then Some (bin_dir @ [nm])
          else os_walk_find hamlib nm
      | None \<Rightarrow> os_walk_find hamlib nm)"

section \<open>Release installer\<close>

text \<open>
  What a call into a library or the operating system gives back: it raises, with the
  text of the exception, or it returns.
\<close>

datatype 'a outcome = Raised string | Returned 'a

text \<open>The fields of the release descriptor that the installer reads.\<close>

record asset =
  name :: string
  browser_download_url :: string

record release =
  tag_name :: "string option"
  assets :: "asset list"
  zipball_url :: "string option"

text \<open>
  The two loops over the assets and the fallback. \<open>not asset_url\<close> holds for \<open>None\<close> and
  for the empty string. Each loop stops at the first asset that passes its test and
  takes its address and name.
\<close>

definition is_w64_zip :: "asset \<Rightarrow> bool" where
  "is_w64_zip a \<longleftrightarrow> endswith (lower (name a)) ''.zip'' \<and> contains ''w64'' (lower (name a))"

definition is_zip :: "asset \<Rightarrow> bool" where
  "is_zip a \<longleftrightarrow> endswith (lower (name a)) ''.zip''"

definition falsy :: "string option \<Rightarrow> bool" where
  "falsy u \<longleftrightarrow> u = None \<or> u = Some []"

definition pick :: "(asset \<Rightarrow> bool) \<Rightarrow> asset list \<Rightarrow> string option \<times> string option
    \<Rightarrow> string option \<times> string option" where
  "pick test as cur =
     (case find test as of
        Some a \<Rightarrow> (Some (browser_download_url a), Some (name a))
      | None \<Rightarrow> cur)"

definition select_asset :: "release \<Rightarrow> string option \<times> string option" where
  "select_asset latest =
     (let s1 = pick is_w64_zip (assets latest) (None, None);
          s2 = (if falsy (fst s1) then pick is_zip (assets latest) s1 else s1)
      in if falsy (fst s2)
         then (zipball_url latest,
               Some (''hamlib-'' @ (case tag_name latest of Some t \<Rightarrow> t | None \<Rightarrow> ''latest'')
                     @ ''.zip''))
         else s2)"

text \<open>
  The answer to the streamed request for the archive: the request or its status check
  raises before anything is written, or the body arrives as chunks, after which the
  stream either ends or raises. \<open>total\<close> is the Content-Length, 0 when absent.
\<close>

datatype download =
    Refused string
  | Stream (total: nat) (chunks: "string list") (broke: "string option")

text \<open>
  The operating system's refusals that follow from the tree when a file under the root
  is opened: a folder on the way is missing, a file stands where a folder is needed, a
  folder stands where the file is to be.
\<close>

datatype os_error = ENOENT | ENOTDIR | EISDIR

text \<open>
  The calls the installer makes on the filesystem besides the removals: creating the
  root, opening the archive to write it, opening it to read it.
\<close>

datatype os_call = Mkdir | OpenWrite path | OpenRead path

text \<open>
  The environment of one install attempt:
  \<^item> the answer of the release feed;
  \<^item> the answer to the request for an address;
  \<^item> what \<open>ZipFile(dest).extractall(HAMLIB_DIR)\<close> makes of the root given the archive's
    bytes (the entries afterwards, and the exception if it raised);
  \<^item> the time of the clock, which a folder takes as its modification time when a file
    is created in it;
  \<^item> the refusals of the operating system for reasons the tree does not show
    (permissions, locks, limits on names): for a call, the text of the exception if it
    is refused;
  \<^item> the removals of the clearing loop: for an entry of the root, nothing if it is
    removed, or what is left of it and the text of the exception if the removal raises;
  \<^item> the texts of the exceptions the code formats into its message but whose wording
    is the platform's: that of an operating system error for a path, and that of
    joining the root with a missing name.
\<close>

record install_env =
  feed :: "release outcome"
  fetch :: "string option \<Rightarrow> download"
  extractall :: "string \<Rightarrow> entries \<Rightarrow> entries \<times> string option"
  time_now :: int
  os_refuses :: "os_call \<Rightarrow> string option"
  remove :: "string \<Rightarrow> node \<Rightarrow> (node \<times> string) option"
  strerror :: "os_error \<Rightarrow> path \<Rightarrow> string"
  type_error :: string

text \<open>
  The result of an attempt: the pair the function returns, the installation root
  afterwards, and the progress reports made, each as bytes so far and total.
\<close>

record install_result =
  ok :: bool
  msg :: string
  root_after :: "entries option"
  progress :: "(nat \<times> nat) list"

definition ensure_hamlib_dir :: "entries option \<Rightarrow> entries" where
  "ensure_hamlib_dir hamlib = (case hamlib of None \<Rightarrow> [] | Some es \<Rightarrow> es)"

text \<open>
  \<open>dest = HAMLIB_DIR / asset_name\<close> is a path: the name is cut at every slash, and empty
  components and single dots are dropped, as \<open>pathlib\<close> does. The model follows the
  path below the root. It does not cover (\<open>None\<close>) a name that leaves the root or whose
  meaning depends on the platform: one that starts with a slash, has a component of
  two dots, or holds a backslash, a colon or a NUL character.
\<close>

fun split_slash :: "string \<Rightarrow> string \<Rightarrow> string list" where
  "split_slash cur [] = [cur]"
| "split_slash cur (c # cs) =
     (if c = CHR ''/'' then cur # split_slash [] cs else split_slash (cur @ [c]) cs)"

definition path_parts :: "string \<Rightarrow> path option" where
  "path_parts nm =
     (if (nm \<noteq> [] \<and> hd nm = CHR ''/'') \<or> CHR 0x5C \<in> set nm \<or> CHR '':'' \<in> set nm
         \<or> CHR 0x00 \<in> set nm
      then None
      else let ps = filter (\<lambda>c. c \<noteq> [] \<and> c \<noteq> ''.'') (split_slash [] nm)
           in if ''..'' \<in> set ps then None else Some ps)"

text \<open>
  \<open>open(dest, 'wb')\<close>: every folder on the way must be there. At the end of the path a
  folder makes the call raise, a file is emptied, and otherwise an empty file is
  created, which gives the folder it is created in the clock's time as modification
  time (the root's own time is not part of the model).
\<close>

fun open_wb :: "int \<Rightarrow> path \<Rightarrow> entries \<Rightarrow> os_error + entries" where
  "open_wb t [] es = Inl EISDIR"
| "open_wb t [n] es =
     (case map_of es n of
        Some (Dir _ _) \<Rightarrow> Inl EISDIR
      | _ \<Rightarrow> Inr (AList.update n (File []) es))"
| "open_wb t (n # m # ns) es =
     (case map_of es n of
        None \<Rightarrow> Inl ENOENT
      | Some (File _) \<Rightarrow> Inl ENOTDIR
      | Some (Dir td sub) \<Rightarrow>
          (case open_wb t (m # ns) sub of
             Inl e \<Rightarrow> Inl e
           | Inr sub' \<Rightarrow>
               Inr (AList.update n
                      (Dir (if ns = [] \<and> map_of sub m = None then t else td) sub') es)))"

text \<open>The writes through the open file: the file at the path takes the bytes.\<close>

fun put_file :: "path \<Rightarrow> string \<Rightarrow> entries \<Rightarrow> entries" where
  "put_file [] w es = es"
| "put_file [n] w es = AList.update n (File w) es"
| "put_file (n # m # ns) w es =
     (case map_of es n of
        Some (Dir td sub) \<Rightarrow> AList.update n (Dir td (put_file (m # ns) w sub)) es
      | _ \<Rightarrow> es)"

text \<open>Opening the file at a path for reading, as \<open>ZipFile(dest, 'r')\<close> does: its bytes.\<close>

fun open_rb :: "path \<Rightarrow> entries \<Rightarrow> os_error + string" where
  "open_rb [] es = Inl EISDIR"
| "open_rb [n] es =
     (case map_of es n of
        None \<Rightarrow> Inl ENOENT
      | Some (Dir _ _) \<Rightarrow> Inl EISDIR
      | Some (File b) \<Rightarrow> Inr b)"
| "open_rb (n # m # ns) es =
     (case map_of es n of
        None \<Rightarrow> Inl ENOENT
      | Some (File _) \<Rightarrow> Inl ENOTDIR
      | Some (Dir _ sub) \<Rightarrow> open_rb (m # ns) sub)"

text \<open>The chunk loop: empty chunks are passed over, the others written and counted.\<close>

fun write_chunks :: "nat \<Rightarrow> nat \<Rightarrow> string list \<Rightarrow> string \<times> (nat \<times> nat) list" where
  "write_chunks tot downloaded [] = ([], [])"
| "write_chunks tot downloaded (chunk # rest) =
     (if chunk = [] then write_chunks tot downloaded rest
      else let r = write_chunks tot (downloaded + length chunk) rest
           in (chunk @ fst r,
               (if tot \<noteq> 0 then [(downloaded + length chunk, tot)] else []) @ snd r))"

text \<open>
  The loop that clears the root, in the order of the listing: the entry that is \<open>dest\<close>
  itself is passed over, every other entry is removed, folders with all they hold; a
  removal that raises ends the loop. An archive that lies deeper than the root is
  therefore removed with its folder. The result is the root afterwards and the
  exception, if any.
\<close>

fun clear_loop :: "(string \<Rightarrow> node \<Rightarrow> (node \<times> string) option) \<Rightarrow> path \<Rightarrow> entries
    \<Rightarrow> entries \<times> string option" where
  "clear_loop rm dest [] = ([], None)"
| "clear_loop rm dest (item # rest) =
     (if [fst item] = dest
      then let r = clear_loop rm dest rest in (item # fst r, snd r)
      else case rm (fst item) (snd item) of
             None \<Rightarrow> clear_loop rm dest rest
           | Some (left, e) \<Rightarrow> ((fst item, left) # rest, Some e))"

definition failed :: "string \<Rightarrow> entries option \<Rightarrow> (nat \<times> nat) list \<Rightarrow> install_result" where
  "failed e hamlib pr =
     \<lparr>ok = False, msg = ''Download/extract failed: '' @ e, root_after = hamlib, progress = pr\<rparr>"

text \<open>
  The install attempt from the clearing on: the root is cleared, the archive is opened
  and extracted, and success is returned.
\<close>

definition clear_and_extract ::
    "install_env \<Rightarrow> release \<Rightarrow> path \<Rightarrow> entries \<Rightarrow> (nat \<times> nat) list \<Rightarrow> install_result" where
  "clear_and_extract env latest dest es2 pr =
     (let c = clear_loop (remove env) dest es2
      in case snd c of
           Some e \<Rightarrow> failed e (Some (fst c)) pr
         | None \<Rightarrow>
             (case os_refuses env (OpenRead dest) of
                Some e \<Rightarrow> failed e (Some (fst c)) pr
              | None \<Rightarrow>
                  (case open_rb dest (fst c) of
                     Inl err \<Rightarrow> failed (strerror env err dest) (Some (fst c)) pr
                   | Inr bytes \<Rightarrow>
                       (let x = extractall env bytes (fst c)
                        in case snd x of
                             Some e \<Rightarrow> failed e (Some (fst x)) pr
                           | None \<Rightarrow>
                               \<lparr>ok = True,
                                msg = ''Installed release '' @
                                  (case tag_name latest of
                                     Some t \<Rightarrow> t | None \<Rightarrow> ''unknown''),
                                root_after = Some (fst x),
                                progress = pr\<rparr>))))"

text \<open>
  The install attempt from the request for the archive on. The result is \<open>None\<close> only
  when the archive is about to be opened under a name the model of paths does not
  cover.
\<close>

definition download_and_install ::
    "install_env \<Rightarrow> release \<Rightarrow> string option \<Rightarrow> string \<Rightarrow> entries \<Rightarrow> install_result option" where
  "download_and_install env latest asset_url asset_name es =
     (case fetch env asset_url of
        Refused e \<Rightarrow> Some (failed e (Some es) [])
      | Stream tot cs br \<Rightarrow>
          (case path_parts asset_name of
             None \<Rightarrow> None
           | Some dest \<Rightarrow>
               (case os_refuses env (OpenWrite dest) of
                  Some e \<Rightarrow> Some (failed e (Some es) [])
                | None \<Rightarrow>
                    (case open_wb (time_now env) dest es of
                       Inl err \<Rightarrow> Some (failed (strerror env err dest) (Some es) [])
                     | Inr es1 \<Rightarrow>
                         (let w = write_chunks tot 0 cs;
                              es2 = put_file dest (fst w) es1
                          in case br of
                               Some e \<Rightarrow> Some (failed e (Some es2) (snd w))
                             | None \<Rightarrow> Some (clear_and_extract env latest dest es2 (snd w)))))))"

text \<open>
  The whole attempt: the feed is asked, the asset chosen, the root created if it is not
  there, the path of the archive built, and the rest as above.
\<close>

definition download_latest_release :: "install_env \<Rightarrow> entries option \<Rightarrow> install_result option" where
  "download_latest_release env hamlib =
     (case feed env of
        Raised e \<Rightarrow> Some (failed e hamlib [])
      | Returned latest \<Rightarrow>
          (case (if hamlib = None then os_refuses env Mkdir else None) of
             Some e \<Rightarrow> Some (failed e hamlib [])
           | None \<Rightarrow>
               (case select_asset latest of
                  (asset_url, None) \<Rightarrow>
                    Some (failed (type_error env) (Some (ensure_hamlib_dir hamlib)) [])
                | (asset_url, Some asset_name) \<Rightarrow>
                    download_and_install env latest asset_url asset_name
                      (ensure_hamlib_dir hamlib))))"

text \<open>
  The attempts that fail at the download step: the feed has answered, an asset is
  chosen and the root is there, and then the request is refused, the archive file
  cannot be opened, or the stream breaks before its end.
\<close>

definition download_step_fails :: "install_env \<Rightarrow> entries option \<Rightarrow> bool" where
  "download_step_fails env hamlib \<longleftrightarrow>
     (case feed env of
        Raised e \<Rightarrow> False
      | Returned latest \<Rightarrow>
          (hamlib = None \<longrightarrow> os_refuses env Mkdir = None) \<and>
          (case select_asset latest of
             (asset_url, None) \<Rightarrow> False
           | (asset_url, Some asset_name) \<Rightarrow>
               (case fetch env asset_url of
                  Refused e \<Rightarrow> True
                | Stream tot cs br \<Rightarrow>
                    (case path_parts asset_name of
                       None \<Rightarrow> False
                     | Some dest \<Rightarrow>
                         os_refuses env (OpenWrite dest) \<noteq> None
                         \<or> (case open_wb (time_now env) dest (ensure_hamlib_dir hamlib) of
                               Inl err \<Rightarrow> True
                             | Inr es1 \<Rightarrow> br \<noteq> None)))))"

section \<open>Capability catalog: the three listing threads\<close>

record completed_process =
  stdout :: string
  stderr :: string

text \<open>What a listing thread emits, in order: its result signal and its messages.\<close>

datatype list_signal = Result "hardware_record list" | Message string

text \<open>
  \<open>subprocess.run([exe, '--list'], capture_output=True, text=True, timeout=...)\<close> is the
  parameter \<open>run\<close>: given the executable and the time allowed in seconds, it raises (also
  on expiry) or returns the captured streams.
\<close>

definition RigctlListThread_run ::
    "entries option \<Rightarrow> (path \<Rightarrow> nat \<Rightarrow> completed_process outcome) \<Rightarrow> list_signal list" where
  "RigctlListThread_run hamlib run =
     (case find_exe hamlib ''rigctld.exe'' of
        None \<Rightarrow> [Result [], Message ''rigctld.exe not found'']
      | Some rig_path \<Rightarrow>
          (case run rig_path 20 of
             Returned p \<Rightarrow> [Result (parse_rig_list (stdout p @ stderr p))]
           | Raised e \<Rightarrow> [Message (''Failed to run rigctld --list: '' @ e), Result []]))"

definition RotctlListThread_run ::
    "entries option \<Rightarrow> (path \<Rightarrow> nat \<Rightarrow> completed_process outcome) \<Rightarrow> list_signal list" where
  "RotctlListThread_run hamlib run =
     (case find_exe hamlib ''rotctld.exe'' of
        None \<Rightarrow> [Result [], Message ''rotctld.exe not found'']
      | Some exe \<Rightarrow>
          (case run exe 10 of
             Returned p \<Rightarrow> [Result (parse_device_list (stdout p))]
           | Raised e \<Rightarrow> [Message (''rotctld --list failed: '' @ e), Result []]))"

definition AmpctlListThread_run ::
    "entries option \<Rightarrow> (path \<Rightarrow> nat \<Rightarrow> completed_process outcome) \<Rightarrow> list_signal list" where
  "AmpctlListThread_run hamlib run =
     (case find_exe hamlib ''ampctld.exe'' of
        None \<Rightarrow> [Result [], Message ''ampctld.exe not found'']
      | Some exe \<Rightarrow>
          (case run exe 10 of
             Returned p \<Rightarrow> [Result (parse_device_list (stdout p))]
           | Raised e \<Rightarrow> [Message (''ampctld --list failed: '' @ e), Result []]))"

section \<open>Process supervisor\<close>

text \<open>
  One \<open>HamlibRunner\<close> object per daemon. \<open>process\<close> and \<open>exe_name\<close> are its attributes;
  a process handle is represented by the process identifier. The other fields record
  what the object has done, for the statements below: the signals it emitted, in order;
  the \<open>Popen\<close> calls that returned, each with the handle, the program, its arguments and
  its working directory; the handles \<open>terminate()\<close> was called on; the handles whose
  reader thread is still in its \<open>try\<close> block; and the handles whose reader thread has
  assigned \<open>self.process = None\<close> and has yet to emit \<open>stopped\<close>.
\<close>

type_synonym pid = nat

datatype signal = Started | Stopped | Output string

record HamlibRunner =
  process :: "pid option"
  exe_name :: string
  emitted :: "signal list"
  spawned :: "(pid \<times> path \<times> string list \<times> path) list"
  terminated :: "pid list"
  reading :: "pid list"
  clearing :: "pid list"

definition init :: "string \<Rightarrow> HamlibRunner" where
  "init exe = \<lparr>process = None, exe_name = exe, emitted = [], spawned = [],
               terminated = [], reading = [], clearing = []\<rparr>"

text \<open>The three runners the main window creates.\<close>

definition radio_runner :: HamlibRunner where "radio_runner = init ''rigctld.exe''"
definition rotor_runner :: HamlibRunner where "rotor_runner = init ''rotctld.exe''"
definition amp_runner :: HamlibRunner where "amp_runner = init ''ampctld.exe''"

text \<open>
  \<open>start\<close>, given the installation root at the time of the call and what \<open>Popen\<close> does
  when it is reached. Emitting a signal and starting the reader thread are taken to
  succeed.
\<close>

definition start :: "string list \<Rightarrow> entries option \<Rightarrow> pid outcome \<Rightarrow> HamlibRunner \<Rightarrow> HamlibRunner" where
  "start args hamlib popen r =
     (if process r \<noteq> None then r\<lparr>emitted := emitted r @ [Output ''Already running'']\<rparr>
      else case find_exe hamlib (exe_name r) of
             None \<Rightarrow> r\<lparr>emitted := emitted r @ [Output (exe_name r @ '' not found!'')]\<rparr>
           | Some exe_path \<Rightarrow>
               (case popen of
                  Returned h \<Rightarrow>
                    r\<lparr>process := Some h,
                      spawned := spawned r @ [(h, exe_path, args, butlast exe_path)],
                      emitted := emitted r @ [Started],
                      reading := reading r @ [h]\<rparr>
                | Raised e \<Rightarrow>
                    r\<lparr>emitted := emitted r @ [Output (''Failed to start: '' @ e)],
                      process := None\<rparr>))"

definition stop :: "HamlibRunner \<Rightarrow> HamlibRunner" where
  "stop r =
     (case process r of
        None \<Rightarrow> r
      | Some h \<Rightarrow> r\<lparr>terminated := terminated r @ [h]\<rparr>)"

text \<open>
  The reader thread of handle \<open>h\<close>, in the three kinds of step it makes: it passes one
  line on, without its trailing newlines; it leaves the \<open>try\<close> block, at the end of the
  stream or by an exception, and assigns \<open>self.process = None\<close>; it emits \<open>stopped\<close>.
  A step of a thread that is not at that point is not possible (\<open>None\<close>).
\<close>

definition rstrip_newline :: "string \<Rightarrow> string" where
  "rstrip_newline s = rev (dropWhile (\<lambda>c. c = CHR 0x0A) (rev s))"

definition reader_line :: "pid \<Rightarrow> string \<Rightarrow> HamlibRunner \<Rightarrow> HamlibRunner option" where
  "reader_line h line r =
     (if h \<in> set (reading r)
      then Some (r\<lparr>emitted := emitted r @ [Output (rstrip_newline line)]\<rparr>)
      else None)"

definition reader_clear :: "pid \<Rightarrow> HamlibRunner \<Rightarrow> HamlibRunner option" where
  "reader_clear h r =
     (if h \<in> set (reading r)
      then Some (r\<lparr>process := None, reading := remove1 h (reading r),
                   clearing := clearing r @ [h]\<rparr>)
      else None)"

definition reader_emit :: "pid \<Rightarrow> HamlibRunner \<Rightarrow> HamlibRunner option" where
  "reader_emit h r =
     (if h \<in> set (clearing r)
      then Some (r\<lparr>clearing := remove1 h (clearing r), emitted := emitted r @ [Stopped]\<rparr>)
      else None)"

text \<open>
  The calls of the interface thread and the steps of the reader threads, interleaved in
  any order.
\<close>

datatype action =
    Start "string list" "entries option" "pid outcome"
  | Stop
  | ReaderLine pid string
  | ReaderClear pid
  | ReaderEmit pid

fun step :: "action \<Rightarrow> HamlibRunner \<Rightarrow> HamlibRunner option" where
  "step (Start args hamlib popen) r = Some (start args hamlib popen r)"
| "step Stop r = Some (stop r)"
| "step (ReaderLine h line) r = reader_line h line r"
| "step (ReaderClear h) r = reader_clear h r"
| "step (ReaderEmit h) r = reader_emit h r"

fun run_actions :: "action list \<Rightarrow> HamlibRunner \<Rightarrow> HamlibRunner option" where
  "run_actions [] r = Some r"
| "run_actions (a # as) r =
     (case step a r of None \<Rightarrow> None | Some r' \<Rightarrow> run_actions as r')"

text \<open>
  The bookkeeping of a runner is consistent when the reader threads still in their
  \<open>try\<close> block are exactly the one of the process in \<open>self.process\<close>, if any, every
  \<open>Popen\<close> that returned has emitted \<open>started\<close>, and every process spawned has either
  had its \<open>stopped\<close> emitted or has a reader thread that is yet to emit it.
\<close>

definition consistent :: "HamlibRunner \<Rightarrow> bool" where
  "consistent r \<longleftrightarrow>
     reading r = (case process r of None \<Rightarrow> [] | Some h \<Rightarrow> [h])
     \<and> length (spawned r) = count_list (emitted r) Started
     \<and> count_list (emitted r) Stopped + length (reading r) + length (clearing r)
         = length (spawned r)"

section \<open>Example inputs\<close>

text \<open>The listings used as examples: a header line and one data line; two data lines
  and no header.\<close>

definition listing_example :: string where
  "listing_example = ''Rig #  Mfg    Model'' @ [CHR 0x0A] @ ''1  Yaesu  FT-817''"

definition headerless_example :: string where
  "headerless_example = ''1  Yaesu  FT-817'' @ [CHR 0x0A] @ ''2  Icom  IC-7300''"

text \<open>A release whose only asset for the platform is not a zip archive, next to a
  zip archive without the marker.\<close>

definition release_without_w64_zip :: release where
  "release_without_w64_zip =
     \<lparr>tag_name = Some ''4.6.5'',
      assets = [\<lparr>name = ''hamlib-w64-4.6.5.tar.gz'',
                 browser_download_url = ''https://example.org/hamlib-w64-4.6.5.tar.gz''\<rparr>,
                \<lparr>name = ''hamlib-4.6.5.zip'',
                 browser_download_url = ''https://example.org/hamlib-4.6.5.zip''\<rparr>],
      zipball_url = Some ''https://example.org/zipball/4.6.5''\<rparr>"

text \<open>A release with two zip archives, one of them for the platform.\<close>

definition asset_w64 :: asset where
  "asset_w64 = \<lparr>name = ''hamlib-w64-4.6.5.zip'',
                 browser_download_url = ''https://example.org/hamlib-w64-4.6.5.zip''\<rparr>"

definition asset_w32 :: asset where
  "asset_w32 = \<lparr>name = ''hamlib-w32-4.6.5.zip'',
                 browser_download_url = ''https://example.org/hamlib-w32-4.6.5.zip''\<rparr>"

definition release_two_zips :: release where
  "release_two_zips =
     \<lparr>tag_name = Some ''4.6.5'', assets = [asset_w32, asset_w64],
      zipball_url = Some ''https://example.org/zipball/4.6.5''\<rparr>"

text \<open>
  An installation root with two release folders. The older one holds the radio and the
  rotator daemon, the newer one only the rotator daemon.
\<close>

definition two_trees_rotor_only_newer :: entries where
  "two_trees_rotor_only_newer =
     [(''hamlib-w64-4.5'', Dir 100 [(''bin'', Dir 100 [(''rigctld.exe'', File ''MZ''),
                                                        (''rotctld.exe'', File ''MZ'')])]),
      (''hamlib-w64-4.6'', Dir 200 [(''bin'', Dir 200 [(''rotctld.exe'', File ''MZ'')])])]"

text \<open>An installation root with two complete release folders of different age.\<close>

definition two_trees :: entries where
  "two_trees =
     [(''hamlib-w64-4.6'', Dir 200 [(''bin'', Dir 200 [(''rigctld.exe'', File ''MZ''),
                                                        (''rotctld.exe'', File ''MZ'')])]),
      (''hamlib-w64-4.5'', Dir 100 [(''bin'', Dir 100 [(''rigctld.exe'', File ''MZ''),
                                                        (''rotctld.exe'', File ''MZ'')])])]"

text \<open>
  Install attempts. In the first the stream breaks after one chunk; in the second the
  download and the extraction go through, and the archive holds no daemon.
\<close>

definition os_error_text :: "os_error \<Rightarrow> path \<Rightarrow> string" where
  "os_error_text err p =
     (case err of
        ENOENT \<Rightarrow> ''[Errno 2] No such file or directory''
      | ENOTDIR \<Rightarrow> ''[Errno 20] Not a directory''
      | EISDIR \<Rightarrow> ''[Errno 21] Is a directory'')"

definition env_stream_breaks :: install_env where
  "env_stream_breaks =
     \<lparr>feed = Returned release_two_zips,
      fetch = (\<lambda>u. Stream 4 [''PK''] (Some ''Connection broken'')),
      extractall = (\<lambda>bytes es. (es, None)),
      time_now = 300,
      os_refuses = (\<lambda>c. None),
      remove = (\<lambda>n x. None),
      strerror = os_error_text,
      type_error = ''unsupported operand type(s) for /''\<rparr>"

definition env_archive_without_daemons :: install_env where
  "env_archive_without_daemons =
     \<lparr>feed = Returned release_two_zips,
      fetch = (\<lambda>u. Stream 2 [''PK''] None),
      extractall = (\<lambda>bytes es. (es @ [(''README.txt'', File ''Hamlib'')], None)),
      time_now = 300,
      os_refuses = (\<lambda>c. None),
      remove = (\<lambda>n x. None),
      strerror = os_error_text,
      type_error = ''unsupported operand type(s) for /''\<rparr>"

text \<open>
  A release without assets whose tag holds a slash, so that the source archive is stored
  under a name that is a path into a release folder; and an attempt at it whose stream
  breaks, on a root with two complete release folders.
\<close>

definition release_tag_with_slash :: release where
  "release_tag_with_slash =
     \<lparr>tag_name = Some ''w64-4.5/x'', assets = [],
      zipball_url = Some ''https://example.org/zipball/x''\<rparr>"

definition env_tag_with_slash :: install_env where
  "env_tag_with_slash =
     \<lparr>feed = Returned release_tag_with_slash,
      fetch = (\<lambda>u. Stream 4 [''PK''] (Some ''Connection broken'')),
      extractall = (\<lambda>bytes es. (es, None)),
      time_now = 300,
      os_refuses = (\<lambda>c. None),
      remove = (\<lambda>n x. None),
      strerror = os_error_text,
      type_error = ''unsupported operand type(s) for /''\<rparr>"

definition env_tag_with_slash_complete :: install_env where
  "env_tag_with_slash_complete =
     \<lparr>feed = Returned release_tag_with_slash,
      fetch = (\<lambda>u. Stream 2 [''PK''] None),
      extractall = (\<lambda>bytes es. (es, None)),
      time_now = 300,
      os_refuses = (\<lambda>c. None),
      remove = (\<lambda>n x. None),
      strerror = os_error_text,
      type_error = ''unsupported operand type(s) for /''\<rparr>"

definition two_trees_rig_only :: entries where
  "two_trees_rig_only =
     [(''hamlib-w64-4.6'', Dir 200 [(''bin'', Dir 200 [(''rigctld.exe'', File ''MZ'')])]),
      (''hamlib-w64-4.5'', Dir 100 [(''bin'', Dir 100 [(''rigctld.exe'', File ''MZ'')])])]"

text \<open>The root after an earlier install of the same release: the archive it downloaded
  and the folder it extracted.\<close>

definition root_with_old_archive :: entries where
  "root_with_old_archive =
     [(''hamlib-w64-4.6.5.zip'', File ''PK-complete''),
      (''hamlib-w64-4.6.5'', Dir 100 [(''bin'', Dir 100 [(''rigctld.exe'', File ''MZ'')])])]"

text \<open>
  A root with one release folder that holds the three daemons, and a listing run whose
  table arrives on the error stream.
\<close>

definition root_with_daemons :: entries where
  "root_with_daemons =
     [(''hamlib-w64-4.6.5'',
       Dir 100 [(''bin'', Dir 100 [(''rigctld.exe'', File ''MZ''),
                                   (''rotctld.exe'', File ''MZ''),
                                   (''ampctld.exe'', File ''MZ'')])])]"

definition listing_on_stderr :: "path \<Rightarrow> nat \<Rightarrow> completed_process outcome" where
  "listing_on_stderr exe t =
     Returned \<lparr>stdout = [],
               stderr = '' Rot #  Mfg     Model'' @ [CHR 0x0A] @ ''     1  Hamlib  Dummy''\<rparr>"

text \<open>
  Runs of the radio runner: a second start while the first process is alive; a life that
  is ended by \<open>stop\<close>; a life that ends by itself.
\<close>

definition two_starts :: "action list" where
  "two_starts =
     [Start [''--model=1'', ''-vvvv''] (Some root_with_daemons) (Returned 4242),
      Start [''--model=2'', ''-vvvv''] (Some root_with_daemons) (Returned 4243)]"



section \<open>The specification's wording, for comparison\<close>

text \<open>
  The asset preference as the specification words it: first an asset whose name indicates
  the target platform family (it carries the marker \<open>w64\<close>), else any asset with the
  suffix \<open>.zip\<close>, else the generic source archive.
\<close>

definition names_platform :: "asset \<Rightarrow> bool" where
  "names_platform a \<longleftrightarrow> contains ''w64'' (lower (name a))"

definition spec_select_asset :: "release \<Rightarrow> string option \<times> string option" where
  "spec_select_asset latest =
     (case find names_platform (assets latest) of
        Some a \<Rightarrow> (Some (browser_download_url a), Some (name a))
      | None \<Rightarrow>
          (case find is_zip (assets latest) of
             Some a \<Rightarrow> (Some (browser_download_url a), Some (name a))
           | None \<Rightarrow>
               (zipball_url latest,
                Some (''hamlib-'' @ (case tag_name latest of Some t \<Rightarrow> t | None \<Rightarrow> ''latest'')
                      @ ''.zip''))))"

text \<open>
  The resolution order as the specification words it: among the immediate sub-folders
  whose \<open>bin\<close> holds the named executable the most recently modified one, else the
  root's own \<open>bin\<close>, else the walk.
\<close>

fun holds_named :: "string \<Rightarrow> string \<times> node \<Rightarrow> bool" where
  "holds_named nm (n, File _) = False"
| "holds_named nm (n, Dir _ sub) = exists_in sub [''bin'', nm]"

definition spec_resolve :: "entries option \<Rightarrow> string \<Rightarrow> path option" where
  "spec_resolve hamlib nm =
     (case hamlib of
        None \<Rightarrow> None
      | Some es \<Rightarrow>
          (case filter (holds_named nm) es of
             c # cs \<Rightarrow> Some [fst (max_by st_mtime c cs), ''bin'', nm]
           | [] \<Rightarrow>
               if exists_in es [''bin'', nm] then Some [''bin'', nm]
               else walk_top nm [] es))"

section \<open>Properties of the capability parsers\<close>

lemma header_start_no_match:
  "\<forall>l \<in> set ls. \<not> m l \<Longrightarrow> header_start m i ls = 0"
  by (induction ls arbitrary: i) auto

lemma parse_line_append: "parse_line rigs line = rigs @ parse_line [] line"
  by (simp add: parse_line_def Let_def split: option.split)

lemma foldl_parse_line:
  "foldl parse_line rigs ls = rigs @ concat (map (parse_line []) ls)"
proof (induction ls arbitrary: rigs)
  case Nil
  show ?case by simp
next
  case (Cons l ls)
  have "foldl parse_line rigs (l # ls) = foldl parse_line (parse_line rigs l) ls" by simp
  also have "\<dots> = parse_line rigs l @ concat (map (parse_line []) ls)" by (rule Cons.IH)
  also have "\<dots> = rigs @ parse_line [] l @ concat (map (parse_line []) ls)"
    using parse_line_append [of rigs l] by simp
  finally show ?case by simp
qed

lemma parse_line_skip:
  "length (re_split_ws2 (strip l)) < 3 \<or> py_int (re_split_ws2 (strip l) ! 0) = None
   \<Longrightarrow> parse_line rigs l = rigs"
  by (auto simp: parse_line_def Let_def)

lemma parse_line_record:
  "strip l \<noteq> [] \<Longrightarrow> 3 \<le> length (re_split_ws2 (strip l)) \<Longrightarrow>
   py_int (re_split_ws2 (strip l) ! 0) = Some n \<Longrightarrow>
   parse_line [] l = [\<lparr>rec_id = n, mfg = strip (re_split_ws2 (strip l) ! 1),
      model = strip (re_split_ws2 (strip l) ! 2),
      label = strip (re_split_ws2 (strip l) ! 1) @ '' - '' @ strip (re_split_ws2 (strip l) ! 2)\<rparr>]"
  by (simp add: parse_line_def Let_def)

text \<open>The cap on digits: a run of more than 4300 digits is not a number for \<open>int\<close>,
  so a line that starts with one is passed over.\<close>

lemma py_int_rejects_long_numbers:
  assumes "max_str_digits < k"
  shows "py_int (replicate k (CHR ''1'')) = None"
proof -
  from assms obtain j where k: "k = Suc j" by (cases k) simp_all
  have ns: "\<not> int_space (CHR ''1'')" by (simp add: int_space_def)
  have dg: "isdigit (CHR ''1'')" by (simp add: isdigit_def)
  have d: "dropWhile int_space (replicate k (CHR ''1'')) = replicate k (CHR ''1'')"
    using ns by (simp add: k)
  have s: "rev (dropWhile int_space (rev (dropWhile int_space (replicate k (CHR ''1'')))))
             = CHR ''1'' # replicate j (CHR ''1'')"
    by (simp only: d rev_replicate) (simp add: k)
  have l: "length (filter isdigit (CHR ''1'' # replicate j (CHR ''1''))) = k"
    using dg by (simp add: k)
  show ?thesis
    unfolding py_int_def s using l assms by (simp add: Let_def)
qed

lemma parse_rig_list_concat:
  "parse_rig_list text =
     concat (map (parse_line [])
       (drop (header_start rig_header 0 (splitlines text)) (splitlines text)))"
  by (simp add: parse_rig_list_def Let_def foldl_parse_line)

lemma parse_device_list_concat:
  "parse_device_list text =
     concat (map (parse_line [])
       (drop (header_start device_header 0 (splitlines text)) (splitlines text)))"
  by (simp add: parse_device_list_def Let_def foldl_parse_line)

text \<open>
  C4. The listing made of the header line \<open>Rig #  Mfg    Model\<close> and the data line
  \<open>1  Yaesu  FT-817\<close> parses to exactly one record, with id 1, manufacturer Yaesu, model
  FT-817 and label \<open>Yaesu - FT-817\<close>, in both parsers. For every text, the result is the
  concatenation of what each line of the data region contributes by itself, and a line
  that splits into fewer than three fields, or whose first field is not an integer,
  contributes nothing and leaves the records collected so far as they are.
\<close>

theorem parse_listing_example_and_skip:
  "parse_rig_list listing_example =
     [\<lparr>rec_id = 1, mfg = ''Yaesu'', model = ''FT-817'', label = ''Yaesu - FT-817''\<rparr>]
   \<and> parse_device_list listing_example =
     [\<lparr>rec_id = 1, mfg = ''Yaesu'', model = ''FT-817'', label = ''Yaesu - FT-817''\<rparr>]
   \<and> parse_rig_list text =
       concat (map (parse_line [])
         (drop (header_start rig_header 0 (splitlines text)) (splitlines text)))
   \<and> parse_device_list text =
       concat (map (parse_line [])
         (drop (header_start device_header 0 (splitlines text)) (splitlines text)))
   \<and> (length (re_split_ws2 (strip l)) < 3 \<or> py_int (re_split_ws2 (strip l) ! 0) = None
        \<longrightarrow> parse_line rigs l = rigs \<and> parse_line [] l = [])"
proof -
  have a: "parse_rig_list listing_example =
     [\<lparr>rec_id = 1, mfg = ''Yaesu'', model = ''FT-817'', label = ''Yaesu - FT-817''\<rparr>]"
    by code_simp
  have b: "parse_device_list listing_example =
     [\<lparr>rec_id = 1, mfg = ''Yaesu'', model = ''FT-817'', label = ''Yaesu - FT-817''\<rparr>]"
    by code_simp
  have e: "length (re_split_ws2 (strip l)) < 3 \<or> py_int (re_split_ws2 (strip l) ! 0) = None
        \<longrightarrow> parse_line rigs l = rigs \<and> parse_line [] l = []"
    using parse_line_skip by blast
  from a b e parse_rig_list_concat [of "text"] parse_device_list_concat [of "text"]
  show ?thesis by blast
qed

theorem parse_listing_example_and_skip_witness:
  "py_int (re_split_ws2 (strip ''abc  X  Y'') ! 0) = None
   \<and> parse_line [\<lparr>rec_id = 1, mfg = ''Yaesu'', model = ''FT-817'', label = ''Yaesu - FT-817''\<rparr>]
        ''abc  X  Y''
     = [\<lparr>rec_id = 1, mfg = ''Yaesu'', model = ''FT-817'', label = ''Yaesu - FT-817''\<rparr>]
   \<and> parse_rig_list (listing_example @ [CHR 0x0A] @ ''abc  X  Y'' @ [CHR 0x0A] @ ''2  Icom  IC-7300'')
     = [\<lparr>rec_id = 1, mfg = ''Yaesu'', model = ''FT-817'', label = ''Yaesu - FT-817''\<rparr>,
        \<lparr>rec_id = 2, mfg = ''Icom'', model = ''IC-7300'', label = ''Icom - IC-7300''\<rparr>]"
proof -
  have h: "py_int (re_split_ws2 (strip ''abc  X  Y'') ! 0) = None"
    by code_simp
  have t: "concat (map (parse_line [])
         (drop (header_start rig_header 0 (splitlines
            (listing_example @ [CHR 0x0A] @ ''abc  X  Y'' @ [CHR 0x0A] @ ''2  Icom  IC-7300'')))
          (splitlines (listing_example @ [CHR 0x0A] @ ''abc  X  Y'' @ [CHR 0x0A] @ ''2  Icom  IC-7300''))))
     = [\<lparr>rec_id = 1, mfg = ''Yaesu'', model = ''FT-817'', label = ''Yaesu - FT-817''\<rparr>,
        \<lparr>rec_id = 2, mfg = ''Icom'', model = ''IC-7300'', label = ''Icom - IC-7300''\<rparr>]"
    by code_simp
  from h t parse_listing_example_and_skip
      [of "listing_example @ [CHR 0x0A] @ ''abc  X  Y'' @ [CHR 0x0A] @ ''2  Icom  IC-7300''"
          "''abc  X  Y''"
          "[\<lparr>rec_id = 1, mfg = ''Yaesu'', model = ''FT-817'', label = ''Yaesu - FT-817''\<rparr>]"]
  show ?thesis by simp
qed

text \<open>
  C10. When no line of the text matches the header marker, the data region is the whole
  text from its first line: the result is what all the lines contribute, and every
  line of the text that is not blank, has at least three fields and an integer first
  field yields its record in the result. This holds for the radio parser with its
  marker and for the device parser with its marker.
\<close>

theorem headerless_listing_parsed_from_first_line:
  assumes "l \<in> set (splitlines text)"
    and "strip l \<noteq> []"
    and "3 \<le> length (re_split_ws2 (strip l))"
    and "py_int (re_split_ws2 (strip l) ! 0) = Some n"
  shows "((\<forall>x \<in> set (splitlines text). \<not> rig_header x) \<longrightarrow>
            parse_rig_list text = concat (map (parse_line []) (splitlines text))
            \<and> \<lparr>rec_id = n, mfg = strip (re_split_ws2 (strip l) ! 1),
                model = strip (re_split_ws2 (strip l) ! 2),
                label = strip (re_split_ws2 (strip l) ! 1) @ '' - ''
                        @ strip (re_split_ws2 (strip l) ! 2)\<rparr> \<in> set (parse_rig_list text))
       \<and> ((\<forall>x \<in> set (splitlines text). \<not> device_header x) \<longrightarrow>
            parse_device_list text = concat (map (parse_line []) (splitlines text))
            \<and> \<lparr>rec_id = n, mfg = strip (re_split_ws2 (strip l) ! 1),
                model = strip (re_split_ws2 (strip l) ! 2),
                label = strip (re_split_ws2 (strip l) ! 1) @ '' - ''
                        @ strip (re_split_ws2 (strip l) ! 2)\<rparr> \<in> set (parse_device_list text))"
proof -
  let ?r = "\<lparr>rec_id = n, mfg = strip (re_split_ws2 (strip l) ! 1),
              model = strip (re_split_ws2 (strip l) ! 2),
              label = strip (re_split_ws2 (strip l) ! 1) @ '' - ''
                      @ strip (re_split_ws2 (strip l) ! 2)\<rparr>"
  have one: "parse_line [] l = [?r]"
    using assms(2-4) by (rule parse_line_record)
  have "?r \<in> set (parse_line [] l)"
    by (simp add: one)
  with assms(1) have mem: "?r \<in> set (concat (map (parse_line []) (splitlines text)))"
    unfolding set_concat by (intro UN_I [of "parse_line [] l"]) auto
  have rig: "parse_rig_list text = concat (map (parse_line []) (splitlines text))"
    if "\<forall>x \<in> set (splitlines text). \<not> rig_header x"
    using that by (simp add: parse_rig_list_concat header_start_no_match)
  have dev: "parse_device_list text = concat (map (parse_line []) (splitlines text))"
    if "\<forall>x \<in> set (splitlines text). \<not> device_header x"
    using that by (simp add: parse_device_list_concat header_start_no_match)
  from rig dev mem show ?thesis by simp
qed

theorem headerless_listing_parsed_from_first_line_witness:
  "list_all (\<lambda>x. \<not> rig_header x) (splitlines headerless_example)
   \<and> list_all (\<lambda>x. \<not> device_header x) (splitlines headerless_example)
   \<and> \<lparr>rec_id = 2, mfg = ''Icom'', model = ''IC-7300'', label = ''Icom - IC-7300''\<rparr>
       \<in> set (parse_rig_list headerless_example)
   \<and> \<lparr>rec_id = 2, mfg = ''Icom'', model = ''IC-7300'', label = ''Icom - IC-7300''\<rparr>
       \<in> set (parse_device_list headerless_example)"
proof -
  have h1: "''2  Icom  IC-7300'' \<in> set (splitlines headerless_example)" by code_simp
  have h2: "strip ''2  Icom  IC-7300'' \<noteq> []" by code_simp
  have h3: "3 \<le> length (re_split_ws2 (strip ''2  Icom  IC-7300''))" by code_simp
  have h4: "py_int (re_split_ws2 (strip ''2  Icom  IC-7300'') ! 0) = Some 2" by code_simp
  have h5: "\<forall>x \<in> set (splitlines headerless_example). \<not> rig_header x" by code_simp
  have h6: "\<forall>x \<in> set (splitlines headerless_example). \<not> device_header x" by code_simp
  have f1: "strip (re_split_ws2 (strip ''2  Icom  IC-7300'') ! 1) = ''Icom''" by code_simp
  have f2: "strip (re_split_ws2 (strip ''2  Icom  IC-7300'') ! 2) = ''IC-7300''" by code_simp
  have f3: "''Icom'' @ '' - '' @ ''IC-7300'' = ''Icom - IC-7300''" by simp
  note th = headerless_listing_parsed_from_first_line [OF h1 h2 h3 h4, unfolded f1 f2 f3]
  from th h5 h6 show ?thesis unfolding list_all_iff by blast
qed

section \<open>Properties of the asset selection\<close>


lemma is_w64_zip_is_zip: "is_w64_zip a \<Longrightarrow> is_zip a"
  by (simp add: is_w64_zip_def is_zip_def)

lemma select_asset_tier1:
  assumes "find is_w64_zip (assets latest) = Some a" and "browser_download_url a \<noteq> []"
  shows "select_asset latest = (Some (browser_download_url a), Some (name a))"
  using assms by (simp add: select_asset_def pick_def falsy_def Let_def)

lemma select_asset_tier2:
  assumes "\<And>a. find is_w64_zip (assets latest) = Some a \<Longrightarrow> browser_download_url a = []"
    and "find is_zip (assets latest) = Some b" and "browser_download_url b \<noteq> []"
  shows "select_asset latest = (Some (browser_download_url b), Some (name b))"
  using assms
  by (cases "find is_w64_zip (assets latest)")
     (simp_all add: select_asset_def pick_def falsy_def Let_def)

lemma select_asset_tier3:
  assumes "\<And>b. find is_zip (assets latest) = Some b \<Longrightarrow> browser_download_url b = []"
    and "\<And>a. find is_w64_zip (assets latest) = Some a \<Longrightarrow> browser_download_url a = []"
  shows "select_asset latest =
           (zipball_url latest,
            Some (''hamlib-'' @ (case tag_name latest of Some t \<Rightarrow> t | None \<Rightarrow> ''latest'')
                  @ ''.zip''))"
  using assms
  by (cases "find is_w64_zip (assets latest)"; cases "find is_zip (assets latest)")
     (simp_all add: select_asset_def pick_def falsy_def Let_def)

text \<open>
  C6, as amended. The first preference is the first asset whose lower-cased name ends in
  \<open>.zip\<close> and carries the marker \<open>w64\<close>; when there is none, or its address is empty,
  the first asset whose lower-cased name ends in \<open>.zip\<close>; when there is none either, or
  its address is empty, the source archive, under the name \<open>hamlib-<tag>.zip\<close>. Of two
  zip assets of which exactly one carries the marker, the one with the marker is taken,
  in either order.
\<close>

theorem select_asset_ordered_preference:
  "(\<forall>a. find is_w64_zip (assets latest) = Some a \<and> browser_download_url a \<noteq> [] \<longrightarrow>
        select_asset latest = (Some (browser_download_url a), Some (name a)))
   \<and> (\<forall>b. (\<forall>a. find is_w64_zip (assets latest) = Some a \<longrightarrow> browser_download_url a = [])
          \<and> find is_zip (assets latest) = Some b \<and> browser_download_url b \<noteq> [] \<longrightarrow>
        select_asset latest = (Some (browser_download_url b), Some (name b)))
   \<and> ((\<forall>a. find is_w64_zip (assets latest) = Some a \<longrightarrow> browser_download_url a = [])
        \<and> (\<forall>b. find is_zip (assets latest) = Some b \<longrightarrow> browser_download_url b = []) \<longrightarrow>
        select_asset latest =
          (zipball_url latest,
           Some (''hamlib-'' @ (case tag_name latest of Some t \<Rightarrow> t | None \<Rightarrow> ''latest'')
                 @ ''.zip'')))
   \<and> (\<forall>x y. is_zip x \<and> is_zip y \<and> names_platform x \<and> \<not> names_platform y
          \<and> browser_download_url x \<noteq> [] \<longrightarrow>
        select_asset (latest\<lparr>assets := [x, y]\<rparr>) = (Some (browser_download_url x), Some (name x))
        \<and> select_asset (latest\<lparr>assets := [y, x]\<rparr>) = (Some (browser_download_url x), Some (name x)))"
proof (intro conjI allI impI)
  fix a
  assume "find is_w64_zip (assets latest) = Some a \<and> browser_download_url a \<noteq> []"
  then show "select_asset latest = (Some (browser_download_url a), Some (name a))"
    using select_asset_tier1 by blast
next
  fix b
  assume "(\<forall>a. find is_w64_zip (assets latest) = Some a \<longrightarrow> browser_download_url a = [])
          \<and> find is_zip (assets latest) = Some b \<and> browser_download_url b \<noteq> []"
  then show "select_asset latest = (Some (browser_download_url b), Some (name b))"
    using select_asset_tier2 [of latest b] by blast
next
  assume "(\<forall>a. find is_w64_zip (assets latest) = Some a \<longrightarrow> browser_download_url a = [])
        \<and> (\<forall>b. find is_zip (assets latest) = Some b \<longrightarrow> browser_download_url b = [])"
  then show "select_asset latest =
          (zipball_url latest,
           Some (''hamlib-'' @ (case tag_name latest of Some t \<Rightarrow> t | None \<Rightarrow> ''latest'')
                 @ ''.zip''))"
    using select_asset_tier3 [of latest] by blast
next
  fix x y
  assume h: "is_zip x \<and> is_zip y \<and> names_platform x \<and> \<not> names_platform y
          \<and> browser_download_url x \<noteq> []"
  then have x: "is_w64_zip x" and y: "\<not> is_w64_zip y"
    by (simp_all add: is_w64_zip_def is_zip_def names_platform_def)
  from x h show "select_asset (latest\<lparr>assets := [x, y]\<rparr>)
      = (Some (browser_download_url x), Some (name x))"
    by (intro select_asset_tier1) simp_all
  from x y h show "select_asset (latest\<lparr>assets := [y, x]\<rparr>)
      = (Some (browser_download_url x), Some (name x))"
    by (intro select_asset_tier1) simp_all
qed

theorem select_asset_ordered_preference_witness:
  "is_zip asset_w64 \<and> is_zip asset_w32 \<and> names_platform asset_w64 \<and> \<not> names_platform asset_w32
   \<and> browser_download_url asset_w64 \<noteq> []
   \<and> select_asset release_two_zips
       = (Some ''https://example.org/hamlib-w64-4.6.5.zip'', Some ''hamlib-w64-4.6.5.zip'')"
proof -
  have h: "is_zip asset_w64 \<and> is_zip asset_w32 \<and> names_platform asset_w64
      \<and> \<not> names_platform asset_w32 \<and> browser_download_url asset_w64 \<noteq> []"
    by code_simp
  have r: "release_two_zips\<lparr>assets := [asset_w32, asset_w64]\<rparr> = release_two_zips"
    by (simp add: release_two_zips_def)
  have v: "browser_download_url asset_w64 = ''https://example.org/hamlib-w64-4.6.5.zip''"
      "name asset_w64 = ''hamlib-w64-4.6.5.zip''"
    by (simp_all add: asset_w64_def)
  from select_asset_ordered_preference [of release_two_zips] h
  have "select_asset (release_two_zips\<lparr>assets := [asset_w32, asset_w64]\<rparr>)
      = (Some (browser_download_url asset_w64), Some (name asset_w64))"
    by blast
  with h r v show ?thesis by simp
qed

text \<open>
  C6, as stated, fails: an asset that names the platform but is not a zip archive is the
  specification's first choice, and the code passes it over for the zip archive that
  follows.
\<close>

theorem platform_asset_without_zip_suffix_not_selected:
  "spec_select_asset release_without_w64_zip
     = (Some ''https://example.org/hamlib-w64-4.6.5.tar.gz'', Some ''hamlib-w64-4.6.5.tar.gz'')
   \<and> select_asset release_without_w64_zip
     = (Some ''https://example.org/hamlib-4.6.5.zip'', Some ''hamlib-4.6.5.zip'')"
  by code_simp

section \<open>Properties of the filesystem resolver\<close>


lemma max_by_mem: "max_by key b xs \<in> set (b # xs)"
  by (induction xs arbitrary: b) auto

lemma max_by_ge_start: "key b \<le> key (max_by key b xs)"
proof (induction xs arbitrary: b)
  case Nil
  show ?case by simp
next
  case (Cons x xs)
  have "key b \<le> key (if key b < key x then x else b)" by simp
  also have "\<dots> \<le> key (max_by key (if key b < key x then x else b) xs)" by (rule Cons.IH)
  finally show ?case by simp
qed

lemma max_by_ge: "x \<in> set (b # xs) \<Longrightarrow> key x \<le> key (max_by key b xs)"
proof (induction xs arbitrary: b)
  case Nil
  then show ?case by simp
next
  case (Cons y ys)
  let ?b' = "if key b < key y then y else b"
  from Cons.prems consider "x = b" | "x = y" | "x \<in> set ys" by auto
  then show ?case
  proof cases
    case 1
    then show ?thesis using max_by_ge_start [of key b "y # ys"] by simp
  next
    case 2
    have "key y \<le> key ?b'" by simp
    also have "\<dots> \<le> key (max_by key ?b' ys)" by (rule max_by_ge_start)
    finally show ?thesis using 2 by simp
  next
    case 3
    then have "x \<in> set (?b' # ys)" by simp
    then have "key x \<le> key (max_by key ?b' ys)" by (rule Cons.IH)
    then show ?thesis by simp
  qed
qed

lemma find_append_cases:
  "find P (xs @ ys) = (case find P xs of Some x \<Rightarrow> Some x | None \<Rightarrow> find P ys)"
  by (induction xs) auto

lemma find_files_prefix:
  "find (\<lambda>p. last p = nm) (map (\<lambda>f. root @ [f]) fs)
     = (if nm \<in> set fs then Some (root @ [nm]) else None)"
  by (induction fs) auto

lemma walk_is_first_match:
  "walk_top nm root es = find (\<lambda>p. last p = nm) (walk_files root es)"
  "walk_dirs nm root es = find (\<lambda>p. last p = nm) (walk_sub root es)"
proof (induction nm root es and nm root es rule: walk_top_walk_dirs.induct)
  case (1 nm root es)
  then show ?case
    by (simp add: find_append_cases find_files_prefix)
next
  case (2 nm root)
  show ?case by simp
next
  case (3 nm root d uu rest)
  then show ?case by simp
next
  case (4 nm root d uv sub rest)
  then show ?case
    by (simp add: find_append_cases split: option.splits del: walk_top.simps walk_files.simps)
qed

lemma latest_bin_dir_of_candidates:
  assumes "filter holds_rigctld es = c # cs"
  shows "\<exists>m. m \<in> set es \<and> holds_rigctld m
           \<and> (\<forall>x \<in> set es. holds_rigctld x \<longrightarrow> st_mtime x \<le> st_mtime m)
           \<and> get_latest_bin_dir (Some es) = Some [fst m, ''bin'']"
proof -
  let ?m = "max_by st_mtime c cs"
  have mem: "?m \<in> set (filter holds_rigctld es)"
    using max_by_mem [of st_mtime c cs] assms by simp
  have ge: "st_mtime x \<le> st_mtime ?m" if "x \<in> set es" "holds_rigctld x" for x
  proof -
    from that have "x \<in> set (c # cs)" using assms [symmetric] by simp
    then show ?thesis by (rule max_by_ge)
  qed
  have g: "get_latest_bin_dir (Some es) = Some [fst ?m, ''bin'']"
    using assms by (simp add: get_latest_bin_dir_def)
  from mem have m1: "?m \<in> set es" and m2: "holds_rigctld ?m" by simp_all
  from ge have m3: "\<forall>x \<in> set es. holds_rigctld x \<longrightarrow> st_mtime x \<le> st_mtime ?m" by blast
  show ?thesis
    by (rule exI [of _ ?m]) (intro conjI m1 m2 m3 g)
qed

lemma find_exe_two_trees:
  assumes ab: "a \<noteq> b" and t: "ta \<noteq> tb"
    and ra: "exists_in ea [''bin'', ''rigctld.exe'']" and rb: "exists_in eb [''bin'', ''rigctld.exe'']"
    and na: "exists_in ea [''bin'', nm]" and nb: "exists_in eb [''bin'', nm]"
  shows "find_exe (Some [(a, Dir ta ea), (b, Dir tb eb)]) nm
           = Some [if ta < tb then b else a, ''bin'', nm]"
  using assms
  by (simp add: find_exe_def get_latest_bin_dir_def path_exists_def)

text \<open>
  C5, as amended. The folder of the latest installation is found by the radio daemon,
  whatever executable is asked for: among the immediate sub-folders of the root whose
  \<open>bin\<close> holds \<open>rigctld.exe\<close>, one with the most recent modification time is chosen;
  when there is none, the root's own \<open>bin\<close> if it holds \<open>rigctld.exe\<close>. The named
  executable is returned from the bin folder so found if it is there. In every other
  case the result is that of the walk of the root, which is the first file of that name
  in the order of the walk, or nothing. With two sub-trees of different modification
  times that both hold \<open>rigctld.exe\<close> and the named executable, the path under the more
  recently modified one is returned.
\<close>

theorem find_exe_resolution_order:
  "(\<forall>c cs. filter holds_rigctld es = c # cs \<longrightarrow>
      (\<exists>m. m \<in> set es \<and> holds_rigctld m
           \<and> (\<forall>x \<in> set es. holds_rigctld x \<longrightarrow> st_mtime x \<le> st_mtime m)
           \<and> get_latest_bin_dir (Some es) = Some [fst m, ''bin'']))
   \<and> (filter holds_rigctld es = [] \<longrightarrow>
        get_latest_bin_dir (Some es)
          = (if exists_in es [''bin'', ''rigctld.exe''] then Some [''bin''] else None))
   \<and> (\<forall>d. get_latest_bin_dir hamlib = Some d \<and> path_exists hamlib (d @ [nm]) \<longrightarrow>
        find_exe hamlib nm = Some (d @ [nm]))
   \<and> ((\<forall>d. get_latest_bin_dir hamlib = Some d \<longrightarrow> \<not> path_exists hamlib (d @ [nm])) \<longrightarrow>
        find_exe hamlib nm = os_walk_find hamlib nm)
   \<and> os_walk_find (Some es) nm = find (\<lambda>p. last p = nm) (walk_files [] es)
   \<and> os_walk_find None nm = None
   \<and> (a \<noteq> b \<and> ta \<noteq> tb
        \<and> exists_in ea [''bin'', ''rigctld.exe''] \<and> exists_in eb [''bin'', ''rigctld.exe'']
        \<and> exists_in ea [''bin'', nm] \<and> exists_in eb [''bin'', nm] \<longrightarrow>
        find_exe (Some [(a, Dir ta ea), (b, Dir tb eb)]) nm
          = Some [if ta < tb then b else a, ''bin'', nm])"
proof -
  have p1: "\<forall>c cs. filter holds_rigctld es = c # cs \<longrightarrow>
      (\<exists>m. m \<in> set es \<and> holds_rigctld m
           \<and> (\<forall>x \<in> set es. holds_rigctld x \<longrightarrow> st_mtime x \<le> st_mtime m)
           \<and> get_latest_bin_dir (Some es) = Some [fst m, ''bin''])"
    using latest_bin_dir_of_candidates by blast
  have p2: "filter holds_rigctld es = [] \<longrightarrow>
        get_latest_bin_dir (Some es)
          = (if exists_in es [''bin'', ''rigctld.exe''] then Some [''bin''] else None)"
    by (simp add: get_latest_bin_dir_def)
  have p3: "\<forall>d. get_latest_bin_dir hamlib = Some d \<and> path_exists hamlib (d @ [nm]) \<longrightarrow>
        find_exe hamlib nm = Some (d @ [nm])"
    by (simp add: find_exe_def)
  have p4: "(\<forall>d. get_latest_bin_dir hamlib = Some d \<longrightarrow> \<not> path_exists hamlib (d @ [nm])) \<longrightarrow>
        find_exe hamlib nm = os_walk_find hamlib nm"
    by (cases "get_latest_bin_dir hamlib") (simp_all add: find_exe_def)
  have p5: "os_walk_find (Some es) nm = find (\<lambda>p. last p = nm) (walk_files [] es)"
    unfolding os_walk_find_def using walk_is_first_match(1) [of nm "[]" es] by simp
  have p6: "os_walk_find None nm = None"
    by (simp add: os_walk_find_def)
  have p7: "a \<noteq> b \<and> ta \<noteq> tb
        \<and> exists_in ea [''bin'', ''rigctld.exe''] \<and> exists_in eb [''bin'', ''rigctld.exe'']
        \<and> exists_in ea [''bin'', nm] \<and> exists_in eb [''bin'', nm] \<longrightarrow>
        find_exe (Some [(a, Dir ta ea), (b, Dir tb eb)]) nm
          = Some [if ta < tb then b else a, ''bin'', nm]"
    using find_exe_two_trees by blast
  from p1 p2 p3 p4 p5 p6 p7 show ?thesis by (intro conjI)
qed

theorem find_exe_resolution_order_witness:
  "exists_in [(''bin'', Dir 200 [(''rigctld.exe'', File ''MZ''), (''rotctld.exe'', File ''MZ'')])]
      [''bin'', ''rigctld.exe'']
   \<and> exists_in [(''bin'', Dir 100 [(''rigctld.exe'', File ''MZ''), (''rotctld.exe'', File ''MZ'')])]
      [''bin'', ''rotctld.exe'']
   \<and> find_exe (Some two_trees) ''rotctld.exe''
       = Some [''hamlib-w64-4.6'', ''bin'', ''rotctld.exe'']"
proof -
  let ?ea = "[(''bin'', Dir 200 [(''rigctld.exe'', File ''MZ''), (''rotctld.exe'', File ''MZ'')])]"
  let ?eb = "[(''bin'', Dir 100 [(''rigctld.exe'', File ''MZ''), (''rotctld.exe'', File ''MZ'')])]"
  have h: "''hamlib-w64-4.6'' \<noteq> ''hamlib-w64-4.5'' \<and> (200::int) \<noteq> 100
        \<and> exists_in ?ea [''bin'', ''rigctld.exe''] \<and> exists_in ?eb [''bin'', ''rigctld.exe'']
        \<and> exists_in ?ea [''bin'', ''rotctld.exe''] \<and> exists_in ?eb [''bin'', ''rotctld.exe'']"
    by simp
  from find_exe_resolution_order
         [where a = "''hamlib-w64-4.6''" and b = "''hamlib-w64-4.5''" and ta = 200 and tb = 100
            and ea = ?ea and eb = ?eb and nm = "''rotctld.exe''"] h
  have "find_exe (Some [(''hamlib-w64-4.6'', Dir 200 ?ea), (''hamlib-w64-4.5'', Dir 100 ?eb)])
          ''rotctld.exe''
        = Some [if (200::int) < 100 then ''hamlib-w64-4.5'' else ''hamlib-w64-4.6'',
                ''bin'', ''rotctld.exe'']"
    by blast
  with h show ?thesis by (simp add: two_trees_def)
qed

text \<open>
  C5, as stated, fails for an executable other than \<open>rigctld.exe\<close>: both sub-trees hold
  the rotator daemon, the newer one lacks the radio daemon, and the path under the older
  tree is returned.
\<close>

theorem find_exe_prefers_tree_with_rigctld:
  "spec_resolve (Some two_trees_rotor_only_newer) ''rotctld.exe''
     = Some [''hamlib-w64-4.6'', ''bin'', ''rotctld.exe'']
   \<and> find_exe (Some two_trees_rotor_only_newer) ''rotctld.exe''
     = Some [''hamlib-w64-4.5'', ''bin'', ''rotctld.exe'']"
  by code_simp

section \<open>Properties of the release installer\<close>




subsection \<open>Writing one file into a folder\<close>

lemma find_Some_holds: "find P xs = Some x \<Longrightarrow> P x"
  by (induction xs) (auto split: if_splits)

lemma filter_others_update:
  "filter (\<lambda>e. fst e \<noteq> k) (AList.update k v es) = filter (\<lambda>e. fst e \<noteq> k) es"
  by (induction es) auto

lemma candidates_update_file:
  assumes "\<forall>t s. map_of es k \<noteq> Some (Dir t s)"
  shows "filter holds_rigctld (AList.update k (File c) es) = filter holds_rigctld es"
  using assms
proof (induction es)
  case Nil
  show ?case by simp
next
  case (Cons p ps)
  obtain n x where p: "p = (n, x)" by (cases p)
  show ?case
  proof (cases "n = k")
    case True
    with Cons.prems p obtain b where "x = File b" by (cases x) auto
    with True p show ?thesis by simp
  next
    case False
    with Cons p show ?thesis by simp
  qed
qed

lemma files_update_file:
  assumes "nm \<noteq> k"
  shows "nm \<in> set (files_of (AList.update k (File c) es)) \<longleftrightarrow> nm \<in> set (files_of es)"
  using assms by (induction es) (auto simp: files_of_def)

lemma walk_dirs_update_file:
  assumes "\<forall>t s. map_of es k \<noteq> Some (Dir t s)"
  shows "walk_dirs nm root (AList.update k (File c) es) = walk_dirs nm root es"
  using assms
proof (induction es)
  case Nil
  show ?case by simp
next
  case (Cons p ps)
  obtain n x where p: "p = (n, x)" by (cases p)
  show ?case
  proof (cases "n = k")
    case True
    with Cons.prems p obtain b where "x = File b" by (cases x) auto
    with True p show ?thesis by simp
  next
    case False
    with Cons p show ?thesis
      by (cases x) (simp_all del: walk_top.simps split: option.split)
  qed
qed

lemma exists_in_update_file:
  assumes "\<forall>t s. map_of es k \<noteq> Some (Dir t s)" and "2 \<le> length p"
  shows "exists_in (AList.update k (File c) es) p = exists_in es p"
proof -
  from assms(2) obtain n m ns where p: "p = n # m # ns"
    by (cases p; cases "tl p") auto
  show ?thesis
  proof (cases "n = k")
    case True
    with assms(1) have "map_of es k = None \<or> (\<exists>b. map_of es k = Some (File b))"
      by (cases "map_of es k") (auto intro: node.exhaust)
    with True p show ?thesis
      by (auto simp: AList.update_conv')
  next
    case False
    with p show ?thesis by (simp add: AList.update_conv')
  qed
qed

lemma get_latest_bin_dir_update_file:
  assumes "\<forall>t s. map_of es k \<noteq> Some (Dir t s)"
  shows "get_latest_bin_dir (Some (AList.update k (File c) es)) = get_latest_bin_dir (Some es)"
proof -
  have "exists_in (AList.update k (File c) es) [''bin'', ''rigctld.exe'']
          = exists_in es [''bin'', ''rigctld.exe'']"
    using assms by (intro exists_in_update_file) simp_all
  with assms show ?thesis
    by (simp add: get_latest_bin_dir_def candidates_update_file del: exists_in.simps)
qed

lemma get_latest_bin_dir_length:
  "get_latest_bin_dir hamlib = Some d \<Longrightarrow> 1 \<le> length d"
  by (auto simp: get_latest_bin_dir_def split: option.splits list.splits if_splits)

lemma find_exe_update_file:
  assumes nd: "\<forall>t s. map_of es k \<noteq> Some (Dir t s)" and ne: "nm \<noteq> k"
  shows "find_exe (Some (AList.update k (File c) es)) nm = find_exe (Some es) nm"
proof -
  have w: "os_walk_find (Some (AList.update k (File c) es)) nm = os_walk_find (Some es) nm"
    using nd ne by (simp add: os_walk_find_def walk_dirs_update_file files_update_file)
  have g: "get_latest_bin_dir (Some (AList.update k (File c) es)) = get_latest_bin_dir (Some es)"
    using nd by (rule get_latest_bin_dir_update_file)
  show ?thesis
  proof (cases "get_latest_bin_dir (Some es)")
    case None
    with g w show ?thesis by (simp add: find_exe_def)
  next
    case (Some d)
    then have "2 \<le> length (d @ [nm])"
      using get_latest_bin_dir_length [of "Some es" d] by simp
    then have "exists_in (AList.update k (File c) es) (d @ [nm]) = exists_in es (d @ [nm])"
      using nd by (intro exists_in_update_file)
    with Some g w show ?thesis by (simp add: find_exe_def path_exists_def)
  qed
qed

lemma find_exe_no_root: "find_exe None nm = find_exe (Some []) nm"
  by (simp add: find_exe_def get_latest_bin_dir_def os_walk_find_def files_of_def)

lemma find_exe_ensure: "find_exe (Some (ensure_hamlib_dir hamlib)) nm = find_exe hamlib nm"
  by (cases hamlib) (simp_all add: ensure_hamlib_dir_def find_exe_no_root)

subsection \<open>The name of the archive\<close>

lemma endswith_append: "endswith (xs @ suf) suf"
  by (simp add: endswith_def)

lemma lower_zip: "lower (xs @ ''.zip'') = lower xs @ ''.zip''"
  by (simp add: lower_def lower_char_def)

lemma pick_name_zip:
  assumes "pick test as cur = (u, Some dest)"
    and "\<And>a. test a \<Longrightarrow> endswith (lower (name a)) ''.zip''"
    and "\<And>v d. cur = (v, Some d) \<Longrightarrow> endswith (lower d) ''.zip''"
  shows "endswith (lower dest) ''.zip''"
proof (cases "find test as")
  case None
  with assms(1) have "cur = (u, Some dest)" by (simp add: pick_def)
  then show ?thesis by (rule assms(3))
next
  case (Some a)
  with assms(1) have "dest = name a" by (simp add: pick_def)
  moreover from Some have "test a" by (rule find_Some_holds)
  ultimately show ?thesis using assms(2) by simp
qed

lemma select_asset_name_zip:
  assumes "select_asset latest = (u, Some dest)"
  shows "endswith (lower dest) ''.zip''"
proof -
  let ?s1 = "pick is_w64_zip (assets latest) (None, None)"
  let ?s2 = "if falsy (fst ?s1) then pick is_zip (assets latest) ?s1 else ?s1"
  have s1: "endswith (lower d) ''.zip''" if "?s1 = (v, Some d)" for v d
    using that by (rule pick_name_zip) (simp_all add: is_w64_zip_def)
  have s2: "endswith (lower d) ''.zip''" if "?s2 = (v, Some d)" for v d
  proof (cases "falsy (fst ?s1)")
    case True
    with that have "pick is_zip (assets latest) ?s1 = (v, Some d)" by simp
    then show ?thesis
      by (rule pick_name_zip) (use s1 in \<open>simp_all add: is_zip_def\<close>)
  next
    case False
    with that s1 show ?thesis by simp
  qed
  show ?thesis
  proof (cases "falsy (fst ?s2)")
    case True
    with assms have "dest = (''hamlib-'' @ (case tag_name latest of Some t \<Rightarrow> t | None \<Rightarrow> ''latest'')) @ ''.zip''"
      by (simp add: select_asset_def Let_def)
    then show ?thesis
      by (simp only: lower_zip endswith_append)
  next
    case False
    with assms have "?s2 = (u, Some dest)"
      by (simp add: select_asset_def Let_def)
    then show ?thesis by (rule s2)
  qed
qed

lemma daemon_names_not_zip:
  "\<not> endswith (lower ''rigctld.exe'') ''.zip''"
  "\<not> endswith (lower ''rotctld.exe'') ''.zip''"
  "\<not> endswith (lower ''ampctld.exe'') ''.zip''"
  by code_simp+

lemma write_chunks_bytes: "fst (write_chunks tot d cs) = concat cs"
  by (induction cs arbitrary: d) (simp_all add: Let_def)

text \<open>The archive always has a name: the branch of the installer for a missing name is
  never taken.\<close>

lemma select_asset_has_name: "\<exists>dest. snd (select_asset latest) = Some dest"
  by (cases "find is_w64_zip (assets latest)"; cases "find is_zip (assets latest)")
     (auto simp: select_asset_def pick_def falsy_def Let_def)

subsection \<open>Opening and writing the archive\<close>

lemma open_wb_single:
  "open_wb t [n] es = Inr es1 \<Longrightarrow>
     es1 = AList.update n (File []) es \<and> (\<forall>td s. map_of es n \<noteq> Some (Dir td s))"
  by (auto split: option.splits node.splits)

lemma open_wb_then_read: "open_wb t ps es = Inr es1 \<Longrightarrow> open_rb ps es1 = Inr []"
proof (induction t ps es arbitrary: es1 rule: open_wb.induct)
  case (1 t es)
  then show ?case by simp
next
  case (2 t n es)
  then show ?case
    by (auto simp: AList.update_conv' split: option.splits node.splits)
next
  case (3 t n m ns es)
  from "3.prems" obtain td sub sub' where d: "map_of es n = Some (Dir td sub)"
    and s: "open_wb t (m # ns) sub = Inr sub'"
    and e: "es1 = AList.update n (Dir (if ns = [] \<and> map_of sub m = None then t else td) sub') es"
    by (auto split: option.splits node.splits sum.splits)
  from "3.IH" [OF d refl s] have "open_rb (m # ns) sub' = Inr []" .
  with e show ?case by (simp add: AList.update_conv')
qed

lemma put_file_read: "open_rb ps es = Inr b \<Longrightarrow> open_rb ps (put_file ps w es) = Inr w"
proof (induction ps es arbitrary: b rule: open_rb.induct)
  case (1 es)
  then show ?case by simp
next
  case (2 n es)
  then show ?case by (simp add: AList.update_conv')
next
  case (3 n m ns es)
  from "3.prems" obtain td sub where d: "map_of es n = Some (Dir td sub)"
    and s: "open_rb (m # ns) sub = Inr b"
    by (auto split: option.splits node.splits)
  from "3.IH" [OF d refl s] have "open_rb (m # ns) (put_file (m # ns) w sub) = Inr w" .
  with d show ?case by (simp add: AList.update_conv')
qed

lemma exists_in_open_wb:
  "open_wb t ps es = Inr es1 \<Longrightarrow> exists_in es p \<Longrightarrow> exists_in es1 p"
proof (induction t ps es arbitrary: es1 p rule: open_wb.induct)
  case (1 t es)
  then show ?case by simp
next
  case (2 t n es)
  from "2.prems"(1) have e: "es1 = AList.update n (File []) es"
    and nd: "\<forall>td s. map_of es n \<noteq> Some (Dir td s)"
    using open_wb_single by blast+
  show ?case
  proof (cases p)
    case Nil
    then show ?thesis by simp
  next
    case (Cons q qs)
    show ?thesis
    proof (cases "q = n")
      case True
      with "2.prems"(2) Cons nd have "qs = []"
        by (cases "map_of es n") (auto split: node.splits)
      with True Cons e show ?thesis by (simp add: AList.update_conv')
    next
      case False
      with "2.prems"(2) Cons e show ?thesis by (simp add: AList.update_conv')
    qed
  qed
next
  case (3 t n m ns es)
  from "3.prems"(1) obtain td sub sub' where d: "map_of es n = Some (Dir td sub)"
    and s: "open_wb t (m # ns) sub = Inr sub'"
    and e: "es1 = AList.update n (Dir (if ns = [] \<and> map_of sub m = None then t else td) sub') es"
    by (auto split: option.splits node.splits sum.splits)
  show ?case
  proof (cases p)
    case Nil
    then show ?thesis by simp
  next
    case (Cons q qs)
    show ?thesis
    proof (cases "q = n")
      case True
      with "3.prems"(2) Cons d have "exists_in sub qs" by simp
      with "3.IH" [OF d refl s] have "exists_in sub' qs" by blast
      with True Cons e show ?thesis by (simp add: AList.update_conv')
    next
      case False
      with "3.prems"(2) Cons e show ?thesis by (simp add: AList.update_conv')
    qed
  qed
qed

lemma exists_in_put_file:
  "open_rb ps es = Inr b \<Longrightarrow> exists_in es p \<Longrightarrow> exists_in (put_file ps w es) p"
proof (induction ps es arbitrary: b p rule: open_rb.induct)
  case (1 es)
  then show ?case by simp
next
  case (2 n es)
  from "2.prems"(1) have f: "map_of es n = Some (File b)"
    by (auto split: option.splits node.splits)
  show ?case
  proof (cases p)
    case Nil
    then show ?thesis by simp
  next
    case (Cons q qs)
    with "2.prems"(2) f show ?thesis
      by (cases "q = n") (simp_all add: AList.update_conv')
  qed
next
  case (3 n m ns es)
  from "3.prems"(1) obtain td sub where d: "map_of es n = Some (Dir td sub)"
    and s: "open_rb (m # ns) sub = Inr b"
    by (auto split: option.splits node.splits)
  show ?case
  proof (cases p)
    case Nil
    then show ?thesis by simp
  next
    case (Cons q qs)
    show ?thesis
    proof (cases "q = n")
      case True
      with "3.prems"(2) Cons d have "exists_in sub qs" by simp
      with "3.IH" [OF d refl s] have "exists_in (put_file (m # ns) w sub) qs" by blast
      with True Cons d show ?thesis by (simp add: AList.update_conv')
    next
      case False
      with "3.prems"(2) Cons d show ?thesis by (simp add: AList.update_conv')
    qed
  qed
qed

lemma exists_in_written:
  assumes "open_wb t ps es = Inr es1" and "exists_in es p"
  shows "exists_in (put_file ps w es1) p"
proof -
  from assms have "exists_in es1 p" by (rule exists_in_open_wb)
  with open_wb_then_read [OF assms(1)] show ?thesis by (rule exists_in_put_file)
qed

lemma written_single:
  assumes "open_wb t [n] es = Inr es1"
  shows "put_file [n] w es1 = AList.update n (File w) es"
    and "\<forall>td s. map_of es n \<noteq> Some (Dir td s)"
  using open_wb_single [OF assms] by (simp_all add: AList.update_last)

lemma clear_loop_done:
  "snd (clear_loop rm dest es) = None \<Longrightarrow>
     fst (clear_loop rm dest es) = filter (\<lambda>e. [fst e] = dest) es"
proof (induction es)
  case Nil
  show ?case by simp
next
  case (Cons item rest)
  show ?case
  proof (cases "[fst item] = dest")
    case True
    with Cons.prems have "snd (clear_loop rm dest rest) = None" by (simp add: Let_def)
    with Cons.IH True show ?thesis by (simp add: Let_def)
  next
    case False
    with Cons.prems have r: "rm (fst item) (snd item) = None"
      by (cases "rm (fst item) (snd item)") auto
    with False Cons.prems have "snd (clear_loop rm dest rest) = None" by simp
    with Cons.IH False r show ?thesis by simp
  qed
qed

lemma archive_survives_clearing:
  assumes "snd (clear_loop rm [n] (AList.update n (File w) es)) = None"
  shows "open_rb [n] (fst (clear_loop rm [n] (AList.update n (File w) es))) = Inr w"
proof -
  have "map_of (filter (\<lambda>e. fst e = n) xs) n = map_of xs n" for xs :: entries
    by (induction xs) auto
  then show ?thesis
    unfolding clear_loop_done [OF assms] by (simp add: AList.update_conv')
qed

lemma nested_archive_is_cleared:
  assumes "2 \<le> length ps" and "snd (clear_loop rm ps es) = None"
  shows "fst (clear_loop rm ps es) = []"
proof -
  from assms(1) have "[fst e] \<noteq> ps" for e :: "string \<times> node"
    by (cases ps; cases "tl ps") auto
  then show ?thesis
    unfolding clear_loop_done [OF assms(2)] by simp
qed

subsection \<open>Attempts that fail while downloading\<close>

lemma download_step_fails_root:
  assumes f: "download_step_fails env hamlib"
    and fe: "feed env = Returned latest" and sel: "select_asset latest = (u, Some nm)"
  shows "\<exists>res. download_latest_release env hamlib = Some res \<and> ok res = False \<and>
         (root_after res = Some (ensure_hamlib_dir hamlib)
          \<or> (\<exists>ps es1 w. path_parts nm = Some ps
                \<and> open_wb (time_now env) ps (ensure_hamlib_dir hamlib) = Inr es1
                \<and> root_after res = Some (put_file ps w es1)))"
proof -
  from f fe have mk: "(if hamlib = None then os_refuses env Mkdir else None) = None"
    by (simp add: download_step_fails_def)
  from fe sel mk have top: "download_latest_release env hamlib
      = download_and_install env latest u nm (ensure_hamlib_dir hamlib)"
    by (simp add: download_latest_release_def)
  show ?thesis
  proof (cases "fetch env u")
    case (Refused e)
    then show ?thesis
      unfolding top by (simp add: download_and_install_def failed_def)
  next
    case (Stream tot cs br)
    with f fe sel obtain ps where pp: "path_parts nm = Some ps"
      by (cases "path_parts nm") (simp_all add: download_step_fails_def)
    show ?thesis
    proof (cases "os_refuses env (OpenWrite ps)")
      case (Some e)
      with Stream pp show ?thesis
        unfolding top by (simp add: download_and_install_def failed_def)
    next
      case None
      show ?thesis
      proof (cases "open_wb (time_now env) ps (ensure_hamlib_dir hamlib)")
        case (Inl err)
        with Stream pp None show ?thesis
          unfolding top by (simp add: download_and_install_def failed_def)
      next
        case (Inr es1)
        with f fe sel Stream pp None obtain e where br: "br = Some e"
          by (auto simp: download_step_fails_def)
        from Stream pp None Inr br
        have "download_and_install env latest u nm (ensure_hamlib_dir hamlib)
                = Some (failed e (Some (put_file ps (fst (write_chunks tot 0 cs)) es1))
                          (snd (write_chunks tot 0 cs)))"
          by (simp add: download_and_install_def Let_def)
        with pp Inr show ?thesis
          unfolding top by (auto simp: failed_def)
      qed
    qed
  qed
qed

text \<open>
  C2, as amended. When an install attempt fails at the download step, it reports
  failure and nothing is removed: every path that existed under the root still exists.
  When the archive's name is a single path component, every entry of the root other
  than the archive's own file is unchanged and in its place, every executable with a
  name other than the archive's resolves as before, and so do the three daemons. Not
  covered are the file under the archive's own name, which the download overwrites, and
  an archive name that is a path into a folder of the root, which is written inside
  that folder.
\<close>

theorem failed_download_keeps_installed_tree:
  assumes "download_step_fails env hamlib"
  shows "\<exists>res latest u nm.
      download_latest_release env hamlib = Some res
    \<and> feed env = Returned latest \<and> select_asset latest = (u, Some nm)
    \<and> ok res = False
    \<and> (\<forall>p. path_exists hamlib p \<longrightarrow> path_exists (root_after res) p)
    \<and> (path_parts nm = Some [nm] \<longrightarrow>
         filter (\<lambda>e. fst e \<noteq> nm) (ensure_hamlib_dir (root_after res))
           = filter (\<lambda>e. fst e \<noteq> nm) (ensure_hamlib_dir hamlib)
         \<and> (\<forall>exe. exe \<noteq> nm \<longrightarrow> find_exe (root_after res) exe = find_exe hamlib exe)
         \<and> find_exe (root_after res) ''rigctld.exe'' = find_exe hamlib ''rigctld.exe''
         \<and> find_exe (root_after res) ''rotctld.exe'' = find_exe hamlib ''rotctld.exe''
         \<and> find_exe (root_after res) ''ampctld.exe'' = find_exe hamlib ''ampctld.exe'')"
proof -
  let ?es = "ensure_hamlib_dir hamlib"
  from assms obtain latest where fe: "feed env = Returned latest"
    by (cases "feed env") (simp_all add: download_step_fails_def)
  from assms fe obtain u nm where sel: "select_asset latest = (u, Some nm)"
    by (cases "select_asset latest"; cases "snd (select_asset latest)")
       (simp_all add: download_step_fails_def)
  from download_step_fails_root [OF assms fe sel]
  obtain res where res: "download_latest_release env hamlib = Some res"
    and bad: "ok res = False"
    and r: "root_after res = Some ?es
          \<or> (\<exists>ps es1 w. path_parts nm = Some ps
                \<and> open_wb (time_now env) ps ?es = Inr es1
                \<and> root_after res = Some (put_file ps w es1))"
    by blast
  have kept: "path_exists (root_after res) p" if "path_exists hamlib p" for p
  proof -
    from that have e: "exists_in ?es p"
      by (cases hamlib) (simp_all add: path_exists_def ensure_hamlib_dir_def)
    from r show ?thesis
    proof
      assume "root_after res = Some ?es"
      with e show ?thesis by (simp add: path_exists_def)
    next
      assume "\<exists>ps es1 w. path_parts nm = Some ps
                \<and> open_wb (time_now env) ps ?es = Inr es1
                \<and> root_after res = Some (put_file ps w es1)"
      then obtain ps es1 w where o: "open_wb (time_now env) ps ?es = Inr es1"
        and ra: "root_after res = Some (put_file ps w es1)" by blast
      from o e have "exists_in (put_file ps w es1) p" by (rule exists_in_written)
      with ra show ?thesis by (simp add: path_exists_def)
    qed
  qed
  have plain: "root_after res = Some ?es
      \<or> (\<exists>w. (\<forall>td s. map_of ?es nm \<noteq> Some (Dir td s))
               \<and> root_after res = Some (AList.update nm (File w) ?es))"
    if pp: "path_parts nm = Some [nm]"
  proof -
    from r show ?thesis
    proof
      assume "root_after res = Some ?es"
      then show ?thesis by simp
    next
      assume "\<exists>ps es1 w. path_parts nm = Some ps
                \<and> open_wb (time_now env) ps ?es = Inr es1
                \<and> root_after res = Some (put_file ps w es1)"
      with pp obtain es1 w where o: "open_wb (time_now env) [nm] ?es = Inr es1"
        and ra: "root_after res = Some (put_file [nm] w es1)" by auto
      from written_single(1) [OF o, of w] written_single(2) [OF o] ra show ?thesis by auto
    qed
  qed
  have others: "filter (\<lambda>e. fst e \<noteq> nm) (ensure_hamlib_dir (root_after res))
                  = filter (\<lambda>e. fst e \<noteq> nm) ?es"
    if "path_parts nm = Some [nm]"
    using plain [OF that] by (auto simp: ensure_hamlib_dir_def filter_others_update)
  have same: "find_exe (root_after res) exe = find_exe hamlib exe"
    if "path_parts nm = Some [nm]" and "exe \<noteq> nm" for exe
    using plain [OF that(1)] that(2)
    by (auto simp: find_exe_update_file find_exe_ensure)
  have zip: "endswith (lower nm) ''.zip''"
    using sel by (rule select_asset_name_zip)
  have d: "''rigctld.exe'' \<noteq> nm" "''rotctld.exe'' \<noteq> nm" "''ampctld.exe'' \<noteq> nm"
    using zip daemon_names_not_zip by auto
  have "download_latest_release env hamlib = Some res
    \<and> feed env = Returned latest \<and> select_asset latest = (u, Some nm)
    \<and> ok res = False
    \<and> (\<forall>p. path_exists hamlib p \<longrightarrow> path_exists (root_after res) p)
    \<and> (path_parts nm = Some [nm] \<longrightarrow>
         filter (\<lambda>e. fst e \<noteq> nm) (ensure_hamlib_dir (root_after res))
           = filter (\<lambda>e. fst e \<noteq> nm) (ensure_hamlib_dir hamlib)
         \<and> (\<forall>exe. exe \<noteq> nm \<longrightarrow> find_exe (root_after res) exe = find_exe hamlib exe)
         \<and> find_exe (root_after res) ''rigctld.exe'' = find_exe hamlib ''rigctld.exe''
         \<and> find_exe (root_after res) ''rotctld.exe'' = find_exe hamlib ''rotctld.exe''
         \<and> find_exe (root_after res) ''ampctld.exe'' = find_exe hamlib ''ampctld.exe'')"
    using res fe sel bad kept others same d by blast
  then show ?thesis by blast
qed

theorem failed_download_keeps_installed_tree_witness:
  "download_step_fails env_stream_breaks (Some root_with_old_archive)
   \<and> path_parts ''hamlib-w64-4.6.5.zip'' = Some [''hamlib-w64-4.6.5.zip'']
   \<and> (\<exists>res. download_latest_release env_stream_breaks (Some root_with_old_archive) = Some res
          \<and> find_exe (root_after res) ''rigctld.exe''
              = Some [''hamlib-w64-4.6.5'', ''bin'', ''rigctld.exe''])"
proof -
  have h: "download_step_fails env_stream_breaks (Some root_with_old_archive)"
    by code_simp
  have b: "find_exe (Some root_with_old_archive) ''rigctld.exe''
             = Some [''hamlib-w64-4.6.5'', ''bin'', ''rigctld.exe'']"
    by code_simp
  have fe: "feed env_stream_breaks = Returned release_two_zips"
    by (simp add: env_stream_breaks_def)
  have sel: "select_asset release_two_zips
       = (Some ''https://example.org/hamlib-w64-4.6.5.zip'', Some ''hamlib-w64-4.6.5.zip'')"
    by code_simp
  have pp: "path_parts ''hamlib-w64-4.6.5.zip'' = Some [''hamlib-w64-4.6.5.zip'']"
    by code_simp
  from failed_download_keeps_installed_tree [OF h]
  obtain res latest u nm
    where r: "download_latest_release env_stream_breaks (Some root_with_old_archive) = Some res"
      and f: "feed env_stream_breaks = Returned latest"
      and s: "select_asset latest = (u, Some nm)"
      and c: "path_parts nm = Some [nm] \<longrightarrow>
                find_exe (root_after res) ''rigctld.exe''
                  = find_exe (Some root_with_old_archive) ''rigctld.exe''"
    by blast
  from f fe have "latest = release_two_zips" by simp
  with s sel have "nm = ''hamlib-w64-4.6.5.zip''" by simp
  with c pp b have "find_exe (root_after res) ''rigctld.exe''
      = Some [''hamlib-w64-4.6.5'', ''bin'', ''rigctld.exe'']" by simp
  with h pp r show ?thesis by blast
qed

text \<open>
  C2, as stated, fails in two ways. The archive of an earlier install of the same
  release is emptied when the new download is opened, and holds the bytes received when
  the stream breaks. And when the release's tag holds a slash and names a release
  folder, the partial archive is created inside that folder, whose modification time
  becomes the clock's, so that the radio daemon, which resolved under the other folder
  before, resolves under this one afterwards.
\<close>

theorem failed_download_changes_installed_tree:
  "map_of root_with_old_archive ''hamlib-w64-4.6.5.zip'' = Some (File ''PK-complete'')
   \<and> download_latest_release env_stream_breaks (Some root_with_old_archive)
     = Some \<lparr>ok = False, msg = ''Download/extract failed: Connection broken'',
             root_after = Some [(''hamlib-w64-4.6.5.zip'', File ''PK''),
               (''hamlib-w64-4.6.5'', Dir 100 [(''bin'', Dir 100 [(''rigctld.exe'', File ''MZ'')])])],
             progress = [(2, 4)]\<rparr>
   \<and> find_exe (Some two_trees_rig_only) ''rigctld.exe''
     = Some [''hamlib-w64-4.6'', ''bin'', ''rigctld.exe'']
   \<and> download_latest_release env_tag_with_slash (Some two_trees_rig_only)
     = Some \<lparr>ok = False, msg = ''Download/extract failed: Connection broken'',
             root_after = Some
               [(''hamlib-w64-4.6'', Dir 200 [(''bin'', Dir 200 [(''rigctld.exe'', File ''MZ'')])]),
                (''hamlib-w64-4.5'', Dir 300 [(''bin'', Dir 100 [(''rigctld.exe'', File ''MZ'')]),
                                              (''x.zip'', File ''PK'')])],
             progress = [(2, 4)]\<rparr>
   \<and> find_exe (Some
         [(''hamlib-w64-4.6'', Dir 200 [(''bin'', Dir 200 [(''rigctld.exe'', File ''MZ'')])]),
          (''hamlib-w64-4.5'', Dir 300 [(''bin'', Dir 100 [(''rigctld.exe'', File ''MZ'')]),
                                        (''x.zip'', File ''PK'')])]) ''rigctld.exe''
     = Some [''hamlib-w64-4.5'', ''bin'', ''rigctld.exe'']"
  by code_simp

text \<open>
  C8, as amended. When the stream breaks partway, the call reports failure with the
  text of the exception, clears nothing and does not reach the extraction (its result
  is the same whatever the removals and the extraction would do), and the archive file
  stays where it was opened, with the bytes received so far.
\<close>

theorem broken_stream_leaves_partial_archive:
  assumes "feed env = Returned latest" and "select_asset latest = (u, Some nm)"
    and "hamlib = None \<longrightarrow> os_refuses env Mkdir = None"
    and "path_parts nm = Some ps"
    and "fetch env u = Stream tot cs (Some e)"
    and "os_refuses env (OpenWrite ps) = None"
    and "open_wb (time_now env) ps (ensure_hamlib_dir hamlib) = Inr es1"
  shows "\<exists>res. download_latest_release env hamlib = Some res
    \<and> ok res = False
    \<and> msg res = ''Download/extract failed: '' @ e
    \<and> root_after res = Some (put_file ps (concat cs) es1)
    \<and> open_rb ps (put_file ps (concat cs) es1) = Inr (concat cs)
    \<and> (\<forall>x rm. download_latest_release (env\<lparr>extractall := x, remove := rm\<rparr>) hamlib = Some res)"
proof -
  let ?res = "failed e (Some (put_file ps (concat cs) es1)) (snd (write_chunks tot 0 cs))"
  have r: "download_latest_release env' hamlib = Some ?res"
    if "feed env' = feed env" "fetch env' = fetch env" "time_now env' = time_now env"
      "os_refuses env' = os_refuses env" for env'
  proof -
    from assms(3) that(4)
    have mk: "(if hamlib = None then os_refuses env' Mkdir else None) = None" by simp
    from that(1) assms(1,2) mk
    have "download_latest_release env' hamlib
            = download_and_install env' latest u nm (ensure_hamlib_dir hamlib)"
      by (simp add: download_latest_release_def)
    also from that assms(4-7) have "\<dots> = Some ?res"
      by (simp add: download_and_install_def Let_def write_chunks_bytes)
    finally show ?thesis .
  qed
  have r0: "download_latest_release env hamlib = Some ?res"
    by (rule r) simp_all
  have rx: "download_latest_release (env\<lparr>extractall := x, remove := rm\<rparr>) hamlib = Some ?res"
    for x rm
    by (rule r) simp_all
  have rd: "open_rb ps (put_file ps (concat cs) es1) = Inr (concat cs)"
    using open_wb_then_read [OF assms(7)] by (rule put_file_read)
  from r0 rx rd show ?thesis by (simp add: failed_def)
qed

theorem broken_stream_leaves_partial_archive_witness:
  "feed env_stream_breaks = Returned release_two_zips
   \<and> select_asset release_two_zips
       = (Some ''https://example.org/hamlib-w64-4.6.5.zip'', Some ''hamlib-w64-4.6.5.zip'')
   \<and> path_parts ''hamlib-w64-4.6.5.zip'' = Some [''hamlib-w64-4.6.5.zip'']
   \<and> (\<exists>res. download_latest_release env_stream_breaks None = Some res
          \<and> ok res = False
          \<and> root_after res = Some [(''hamlib-w64-4.6.5.zip'', File ''PK'')])"
proof -
  have h1: "feed env_stream_breaks = Returned release_two_zips"
    by (simp add: env_stream_breaks_def)
  have h2: "select_asset release_two_zips
       = (Some ''https://example.org/hamlib-w64-4.6.5.zip'', Some ''hamlib-w64-4.6.5.zip'')"
    by code_simp
  have h3: "path_parts ''hamlib-w64-4.6.5.zip'' = Some [''hamlib-w64-4.6.5.zip'']"
    by code_simp
  have h4: "fetch env_stream_breaks (Some ''https://example.org/hamlib-w64-4.6.5.zip'')
       = Stream 4 [''PK''] (Some ''Connection broken'')"
    by (simp add: env_stream_breaks_def)
  have h5: "open_wb (time_now env_stream_breaks) [''hamlib-w64-4.6.5.zip'']
              (ensure_hamlib_dir None)
       = Inr [(''hamlib-w64-4.6.5.zip'', File [])]"
    by (simp add: ensure_hamlib_dir_def)
  have p: "put_file [''hamlib-w64-4.6.5.zip''] (concat [''PK''])
             [(''hamlib-w64-4.6.5.zip'', File [])]
           = [(''hamlib-w64-4.6.5.zip'', File ''PK'')]"
    by simp
  have h0: "(None :: entries option) = None \<longrightarrow> os_refuses env_stream_breaks Mkdir = None"
    by (simp add: env_stream_breaks_def)
  have h6: "os_refuses env_stream_breaks (OpenWrite [''hamlib-w64-4.6.5.zip'']) = None"
    by (simp add: env_stream_breaks_def)
  from broken_stream_leaves_partial_archive [OF h1 h2 h0 h3 h4 h6 h5]
  obtain res where "download_latest_release env_stream_breaks None = Some res"
    and "ok res = False"
    and "root_after res = Some (put_file [''hamlib-w64-4.6.5.zip''] (concat [''PK''])
             [(''hamlib-w64-4.6.5.zip'', File [])])"
    by blast
  with p h1 h2 h3 show ?thesis by auto
qed

text \<open>
  C8, as stated, fails: after the stream broke, the call has returned failure and the
  partial archive is in the root.
\<close>

theorem partial_archive_not_removed:
  "download_latest_release env_stream_breaks None
     = Some \<lparr>ok = False, msg = ''Download/extract failed: Connection broken'',
             root_after = Some [(''hamlib-w64-4.6.5.zip'', File ''PK'')],
             progress = [(2, 4)]\<rparr>"
  by code_simp

subsection \<open>Attempts that run to their end\<close>

text \<open>
  An archive whose name is a path of more than one component never gets as far as the
  extraction: a clearing that runs to its end removes the folder it lies in, the archive
  cannot be opened, and the attempt fails with an empty root.
\<close>

lemma install_to_nested_archive_fails:
  assumes "feed env = Returned latest" and "select_asset latest = (u, Some nm)"
    and "hamlib = None \<longrightarrow> os_refuses env Mkdir = None"
    and "path_parts nm = Some ps" and "2 \<le> length ps"
    and "fetch env u = Stream tot cs None"
    and "os_refuses env (OpenWrite ps) = None"
    and "open_wb (time_now env) ps (ensure_hamlib_dir hamlib) = Inr es1"
    and "snd (clear_loop (remove env) ps (put_file ps (concat cs) es1)) = None"
    and "os_refuses env (OpenRead ps) = None"
  shows "download_latest_release env hamlib
           = Some (failed (strerror env ENOENT ps) (Some []) (snd (write_chunks tot 0 cs)))"
proof -
  from assms(5) obtain n m ns where ps: "ps = n # m # ns"
    by (cases ps; cases "tl ps") auto
  have c: "fst (clear_loop (remove env) ps (put_file ps (concat cs) es1)) = []"
    using assms(5,9) by (rule nested_archive_is_cleared)
  have o: "open_rb ps [] = Inl ENOENT"
    by (simp add: ps)
  have "clear_and_extract env latest ps (put_file ps (concat cs) es1) pr
          = failed (strerror env ENOENT ps) (Some []) pr" for pr
    using assms(9,10) c o by (simp add: clear_and_extract_def Let_def)
  then have "download_and_install env latest u nm (ensure_hamlib_dir hamlib)
          = Some (failed (strerror env ENOENT ps) (Some []) (snd (write_chunks tot 0 cs)))"
    using assms(4,6,7,8)
    by (simp add: download_and_install_def Let_def write_chunks_bytes)
  moreover from assms(3)
  have "(if hamlib = None then os_refuses env Mkdir else None) = None" by simp
  with assms(1,2) have "download_latest_release env hamlib
          = download_and_install env latest u nm (ensure_hamlib_dir hamlib)"
    by (simp add: download_latest_release_def)
  ultimately show ?thesis by simp
qed

lemma install_with_missing_folder_fails:
  "download_latest_release env_tag_with_slash_complete None
     = Some \<lparr>ok = False,
             msg = ''Download/extract failed: [Errno 2] No such file or directory'',
             root_after = Some [], progress = []\<rparr>"
  by code_simp

text \<open>
  C9, as amended. An install attempt whose download, clearing and extraction complete
  without error reports success with the release's tag, and its root is what the
  extraction left; the resolver is not consulted, so nothing about the daemons enters.
  The extraction is reached only with an archive stored in the root itself.
\<close>

theorem install_reports_success_after_extraction:
  assumes "feed env = Returned latest" and "select_asset latest = (u, Some nm)"
    and "hamlib = None \<longrightarrow> os_refuses env Mkdir = None"
    and "path_parts nm = Some [n]"
    and "fetch env u = Stream tot cs None"
    and "os_refuses env (OpenWrite [n]) = None"
    and "open_wb (time_now env) [n] (ensure_hamlib_dir hamlib) = Inr es1"
    and "clear_loop (remove env) [n] (put_file [n] (concat cs) es1) = (es3, None)"
    and "os_refuses env (OpenRead [n]) = None"
    and "snd (extractall env (concat cs) es3) = None"
  shows "download_latest_release env hamlib
    = Some \<lparr>ok = True,
            msg = ''Installed release '' @ (case tag_name latest of Some t \<Rightarrow> t | None \<Rightarrow> ''unknown''),
            root_after = Some (fst (extractall env (concat cs) es3)),
            progress = snd (write_chunks tot 0 cs)\<rparr>"
proof -
  let ?es2 = "put_file [n] (concat cs) es1"
  have w: "?es2 = AList.update n (File (concat cs)) (ensure_hamlib_dir hamlib)"
    by (rule written_single(1) [OF assms(7)])
  from assms(8) have c1: "fst (clear_loop (remove env) [n] ?es2) = es3"
    and c2: "snd (clear_loop (remove env) [n] ?es2) = None" by simp_all
  from c2 have "open_rb [n] (fst (clear_loop (remove env) [n] ?es2)) = Inr (concat cs)"
    unfolding w by (rule archive_survives_clearing)
  with c1 have o: "open_rb [n] es3 = Inr (concat cs)" by simp
  have "clear_and_extract env latest [n] ?es2 pr
          = \<lparr>ok = True,
             msg = ''Installed release '' @ (case tag_name latest of Some t \<Rightarrow> t | None \<Rightarrow> ''unknown''),
             root_after = Some (fst (extractall env (concat cs) es3)),
             progress = pr\<rparr>" for pr
    using assms(8,9,10) o by (simp add: clear_and_extract_def Let_def del: put_file.simps)
  then have "download_and_install env latest u nm (ensure_hamlib_dir hamlib)
          = Some \<lparr>ok = True,
             msg = ''Installed release '' @ (case tag_name latest of Some t \<Rightarrow> t | None \<Rightarrow> ''unknown''),
             root_after = Some (fst (extractall env (concat cs) es3)),
             progress = snd (write_chunks tot 0 cs)\<rparr>"
    using assms(4-7)
    by (simp add: download_and_install_def Let_def write_chunks_bytes del: put_file.simps)
  moreover from assms(3)
  have "(if hamlib = None then os_refuses env Mkdir else None) = None" by simp
  with assms(1,2) have "download_latest_release env hamlib
          = download_and_install env latest u nm (ensure_hamlib_dir hamlib)"
    by (simp add: download_latest_release_def)
  ultimately show ?thesis by simp
qed

theorem install_reports_success_after_extraction_witness:
  "feed env_archive_without_daemons = Returned release_two_zips
   \<and> select_asset release_two_zips
       = (Some ''https://example.org/hamlib-w64-4.6.5.zip'', Some ''hamlib-w64-4.6.5.zip'')
   \<and> path_parts ''hamlib-w64-4.6.5.zip'' = Some [''hamlib-w64-4.6.5.zip'']
   \<and> download_latest_release env_archive_without_daemons None
       = Some \<lparr>ok = True, msg = ''Installed release 4.6.5'',
               root_after = Some [(''hamlib-w64-4.6.5.zip'', File ''PK''),
                                  (''README.txt'', File ''Hamlib'')],
               progress = [(2, 2)]\<rparr>"
proof -
  have h1: "feed env_archive_without_daemons = Returned release_two_zips"
    by (simp add: env_archive_without_daemons_def)
  have h2: "select_asset release_two_zips
       = (Some ''https://example.org/hamlib-w64-4.6.5.zip'', Some ''hamlib-w64-4.6.5.zip'')"
    by code_simp
  have h0: "(None :: entries option) = None
      \<longrightarrow> os_refuses env_archive_without_daemons Mkdir = None"
    by (simp add: env_archive_without_daemons_def)
  have h3: "path_parts ''hamlib-w64-4.6.5.zip'' = Some [''hamlib-w64-4.6.5.zip'']"
    by code_simp
  have h4: "fetch env_archive_without_daemons (Some ''https://example.org/hamlib-w64-4.6.5.zip'')
       = Stream 2 [''PK''] None"
    by (simp add: env_archive_without_daemons_def)
  have h5: "os_refuses env_archive_without_daemons (OpenWrite [''hamlib-w64-4.6.5.zip'']) = None"
    by (simp add: env_archive_without_daemons_def)
  have h6: "open_wb (time_now env_archive_without_daemons) [''hamlib-w64-4.6.5.zip'']
              (ensure_hamlib_dir None)
       = Inr [(''hamlib-w64-4.6.5.zip'', File [])]"
    by (simp add: ensure_hamlib_dir_def)
  have h7: "clear_loop (remove env_archive_without_daemons) [''hamlib-w64-4.6.5.zip'']
              (put_file [''hamlib-w64-4.6.5.zip''] (concat [''PK''])
                 [(''hamlib-w64-4.6.5.zip'', File [])])
       = ([(''hamlib-w64-4.6.5.zip'', File ''PK'')], None)"
    by (simp add: env_archive_without_daemons_def)
  have h8: "os_refuses env_archive_without_daemons (OpenRead [''hamlib-w64-4.6.5.zip'']) = None"
    by (simp add: env_archive_without_daemons_def)
  have h9: "snd (extractall env_archive_without_daemons (concat [''PK''])
                   [(''hamlib-w64-4.6.5.zip'', File ''PK'')]) = None"
    by (simp add: env_archive_without_daemons_def)
  have t: "tag_name release_two_zips = Some ''4.6.5''"
    by (simp add: release_two_zips_def)
  have x: "fst (extractall env_archive_without_daemons (concat [''PK''])
                  [(''hamlib-w64-4.6.5.zip'', File ''PK'')])
        = [(''hamlib-w64-4.6.5.zip'', File ''PK''), (''README.txt'', File ''Hamlib'')]"
    by (simp add: env_archive_without_daemons_def)
  have w: "snd (write_chunks 2 0 [''PK'']) = [(2, 2)]"
    by simp
  from install_reports_success_after_extraction [OF h1 h2 h0 h3 h4 h5 h6 h7 h8 h9] h1 h2 h3 t x w
  show ?thesis by simp
qed

text \<open>
  C9, as stated, fails: the archive holds no daemon, none of the three resolves after
  the extraction, and the install reports success.
\<close>

theorem install_succeeds_without_any_daemon:
  "download_latest_release env_archive_without_daemons None
     = Some \<lparr>ok = True, msg = ''Installed release 4.6.5'',
             root_after = Some [(''hamlib-w64-4.6.5.zip'', File ''PK''),
                                (''README.txt'', File ''Hamlib'')],
             progress = [(2, 2)]\<rparr>
   \<and> find_exe (Some [(''hamlib-w64-4.6.5.zip'', File ''PK''), (''README.txt'', File ''Hamlib'')])
       ''rigctld.exe'' = None
   \<and> find_exe (Some [(''hamlib-w64-4.6.5.zip'', File ''PK''), (''README.txt'', File ''Hamlib'')])
       ''rotctld.exe'' = None
   \<and> find_exe (Some [(''hamlib-w64-4.6.5.zip'', File ''PK''), (''README.txt'', File ''Hamlib'')])
       ''ampctld.exe'' = None"
  by code_simp

section \<open>Properties of the process supervisor\<close>


lemma consistent_init: "consistent (init exe)"
  by (simp add: consistent_def init_def)

lemma consistent_start:
  assumes "consistent r"
  shows "consistent (start args hamlib popen r)"
proof (cases "process r")
  case (Some h)
  with assms show ?thesis by (auto simp: start_def consistent_def)
next
  case None
  show ?thesis
  proof (cases "find_exe hamlib (exe_name r)")
    case no: None
    with None assms show ?thesis by (auto simp: start_def consistent_def)
  next
    case (Some p)
    with None assms show ?thesis
      by (cases popen) (auto simp: start_def consistent_def)
  qed
qed

lemma consistent_stop: "consistent r \<Longrightarrow> consistent (stop r)"
  by (cases "process r") (auto simp: stop_def consistent_def)

lemma consistent_reader_line:
  "consistent r \<Longrightarrow> reader_line h line r = Some r' \<Longrightarrow> consistent r'"
  by (auto simp: reader_line_def consistent_def split: if_splits)

lemma consistent_reader_clear:
  assumes "consistent r" and "reader_clear h r = Some r'"
  shows "consistent r'"
proof -
  from assms(2) have h: "h \<in> set (reading r)"
    and r': "r' = r\<lparr>process := None, reading := remove1 h (reading r),
                       clearing := clearing r @ [h]\<rparr>"
    by (auto simp: reader_clear_def split: if_splits)
  from assms(1) have c1: "reading r = (case process r of None \<Rightarrow> [] | Some p \<Rightarrow> [p])"
    and c2: "length (spawned r) = count_list (emitted r) Started"
    and c3: "count_list (emitted r) Stopped + length (reading r) + length (clearing r)
               = length (spawned r)"
    unfolding consistent_def by blast+
  from h c1 have rd: "reading r = [h]"
    by (cases "process r") auto
  from c3 have n: "count_list (emitted r) Stopped + 1 + length (clearing r) = length (spawned r)"
    by (simp add: rd)
  show ?thesis
    unfolding consistent_def r' using n c2 by (simp add: rd)
qed

lemma consistent_reader_emit:
  assumes "consistent r" and "reader_emit h r = Some r'"
  shows "consistent r'"
proof -
  from assms(2) have h: "h \<in> set (clearing r)"
    and r': "r' = r\<lparr>clearing := remove1 h (clearing r), emitted := emitted r @ [Stopped]\<rparr>"
    by (auto simp: reader_emit_def split: if_splits)
  from h have "0 < length (clearing r)" by (rule length_pos_if_in_set)
  with h have "length (remove1 h (clearing r)) + 1 = length (clearing r)"
    by (simp add: length_remove1)
  with assms(1) r' show ?thesis by (auto simp: consistent_def)
qed

lemma consistent_step: "consistent r \<Longrightarrow> step a r = Some r' \<Longrightarrow> consistent r'"
  by (cases a)
     (auto intro: consistent_start consistent_stop consistent_reader_line
        consistent_reader_clear consistent_reader_emit)

lemma consistent_run: "consistent r \<Longrightarrow> run_actions acts r = Some s \<Longrightarrow> consistent s"
proof (induction acts arbitrary: r)
  case Nil
  then show ?case by simp
next
  case (Cons a acts)
  from Cons.prems(2) obtain r' where a: "step a r = Some r'" and rest: "run_actions acts r' = Some s"
    by (auto split: option.splits)
  from Cons.prems(1) a have "consistent r'" by (rule consistent_step)
  then show ?case using rest by (rule Cons.IH)
qed



text \<open>
  C1. A \<open>start\<close> on a runner that holds a process handle only reports
  \<open>Already running\<close>: the handle and the record of spawned processes are as before,
  \<open>Popen\<close> is not reached. In every state a runner reaches from its creation, the
  processes that were spawned and whose end the reader has not yet seen are at most
  one, the one in the runner's single handle.
\<close>

theorem start_rejected_while_running:
  "(process r = Some h \<longrightarrow>
      start args hamlib popen r = r\<lparr>emitted := emitted r @ [Output ''Already running'']\<rparr>
      \<and> process (start args hamlib popen r) = Some h
      \<and> spawned (start args hamlib popen r) = spawned r)
   \<and> (run_actions acts (init exe) = Some s \<longrightarrow>
        length (reading s) \<le> 1
        \<and> reading s = (case process s of None \<Rightarrow> [] | Some p \<Rightarrow> [p]))"
proof -
  have a: "process r = Some h \<longrightarrow>
      start args hamlib popen r = r\<lparr>emitted := emitted r @ [Output ''Already running'']\<rparr>
      \<and> process (start args hamlib popen r) = Some h
      \<and> spawned (start args hamlib popen r) = spawned r"
    by (simp add: start_def)
  have b: "length (reading s) \<le> 1
        \<and> reading s = (case process s of None \<Rightarrow> [] | Some p \<Rightarrow> [p])"
    if "run_actions acts (init exe) = Some s"
  proof -
    from consistent_init that have "consistent s" by (rule consistent_run)
    then show ?thesis by (cases "process s") (auto simp: consistent_def)
  qed
  from a b show ?thesis by blast
qed

theorem start_rejected_while_running_witness:
  "run_actions two_starts radio_runner =
     Some \<lparr>process = Some 4242, exe_name = ''rigctld.exe'',
           emitted = [Started, Output ''Already running''],
           spawned = [(4242, [''hamlib-w64-4.6.5'', ''bin'', ''rigctld.exe''],
                       [''--model=1'', ''-vvvv''], [''hamlib-w64-4.6.5'', ''bin''])],
           terminated = [], reading = [4242], clearing = []\<rparr>
   \<and> process (start [''--model=1'', ''-vvvv''] (Some root_with_daemons) (Returned 4242) radio_runner)
       = Some 4242
   \<and> spawned (start [''--model=2'', ''-vvvv''] (Some root_with_daemons) (Returned 4243)
        (start [''--model=1'', ''-vvvv''] (Some root_with_daemons) (Returned 4242) radio_runner))
       = [(4242, [''hamlib-w64-4.6.5'', ''bin'', ''rigctld.exe''],
           [''--model=1'', ''-vvvv''], [''hamlib-w64-4.6.5'', ''bin''])]"
proof -
  let ?r1 = "start [''--model=1'', ''-vvvv''] (Some root_with_daemons) (Returned 4242) radio_runner"
  let ?s = "\<lparr>process = Some 4242, exe_name = ''rigctld.exe'',
           emitted = [Started, Output ''Already running''],
           spawned = [(4242, [''hamlib-w64-4.6.5'', ''bin'', ''rigctld.exe''],
                       [''--model=1'', ''-vvvv''], [''hamlib-w64-4.6.5'', ''bin''])],
           terminated = [], reading = [4242], clearing = []\<rparr>"
  have h1: "process ?r1 = Some 4242" by code_simp
  have h2: "run_actions two_starts (init ''rigctld.exe'') = Some ?s" by code_simp
  have sp: "spawned ?r1 = [(4242, [''hamlib-w64-4.6.5'', ''bin'', ''rigctld.exe''],
           [''--model=1'', ''-vvvv''], [''hamlib-w64-4.6.5'', ''bin''])]" by code_simp
  note th = start_rejected_while_running
    [of ?r1 4242 "[''--model=2'', ''-vvvv'']" "Some root_with_daemons" "Returned 4243"
        two_starts "''rigctld.exe''" ?s]
  from th h1 have "spawned (start [''--model=2'', ''-vvvv''] (Some root_with_daemons)
      (Returned 4243) ?r1) = spawned ?r1" by blast
  with h1 h2 sp show ?thesis by (simp add: radio_runner_def)
qed



section \<open>The listing threads on the error stream\<close>

text \<open>
  C7 at a concrete input. The rotator daemon is installed and its list run prints the
  table on the error stream. The rotator and the amplifier thread parse the standard
  output alone and report an empty list; the radio thread, given the same two streams,
  parses both and finds the record, as the device parser would on the combined text.
\<close>

theorem device_listing_on_stderr_is_dropped:
  "RotctlListThread_run (Some root_with_daemons) listing_on_stderr = [Result []]
   \<and> AmpctlListThread_run (Some root_with_daemons) listing_on_stderr = [Result []]
   \<and> RigctlListThread_run (Some root_with_daemons) listing_on_stderr
       = [Result [\<lparr>rec_id = 1, mfg = ''Hamlib'', model = ''Dummy'', label = ''Hamlib - Dummy''\<rparr>]]
   \<and> parse_device_list ([] @ '' Rot #  Mfg     Model'' @ [CHR 0x0A] @ ''     1  Hamlib  Dummy'')
       = [\<lparr>rec_id = 1, mfg = ''Hamlib'', model = ''Dummy'', label = ''Hamlib - Dummy''\<rparr>]"
  by code_simp

end
